theory Spec2Isabelle
  imports Complex_Main "HOL-Library.AList" "HOL-Library.Multiset" "HOL-Library.Log_Nat"
    "HOL-Library.Product_Lexorder"
begin

section \<open>JavaScript numbers\<close>

text \<open>
  Scores, totals and comparator results are values of the JavaScript Number type: the
  IEEE 754 binary64 numbers, \<^verbatim>\<open>Infinity\<close>, \<^verbatim>\<open>-Infinity\<close> and \<^verbatim>\<open>NaN\<close>. A finite number is held
  as the rational it denotes. The sign of zero is not represented: \<^verbatim>\<open>-0\<close> and \<^verbatim>\<open>0\<close> are the
  same value here, as they are for every operation the application applies to a score
  (\<^verbatim>\<open>+\<close>, \<^verbatim>\<open>-\<close>, truthiness and the comparison of a difference with \<^verbatim>\<open>0\<close>).
\<close>

datatype jsnum = Num rat | PInf | NInf | NaN

text \<open>
  Rounding to binary64, round to nearest, ties to even. A finite double is an integer
  multiple \<open>m * 2 ^ t\<close> with \<open>m < 2 ^ 53\<close> and \<open>- 1074 \<le> t\<close>; for a rational \<open>a\<close> with
  \<open>2 ^ e \<le> a < 2 ^ (e + 1)\<close> the spacing of the doubles around \<open>a\<close> is \<open>2 ^ (e - 52)\<close>, and
  \<open>2 ^ (- 1074)\<close> in the subnormal range. A result of magnitude \<open>2 ^ 1024\<close> or more is an
  infinity.
\<close>

definition roundHalfEven :: "rat \<Rightarrow> int" where
  "roundHalfEven y =
     (let f = \<lfloor>y\<rfloor>; r = y - of_int f
      in if r < 1 / 2 then f else if 1 / 2 < r then f + 1 else if even f then f else f + 1)"

text \<open>The binary exponent \<open>e\<close> of a positive rational: \<open>2 ^ e \<le> x < 2 ^ (e + 1)\<close>.\<close>

definition exponent :: "rat \<Rightarrow> int" where
  "exponent x =
     (let k = bitlen (fst (quotient_of x)) - bitlen (snd (quotient_of x))
      in if 2 powi k \<le> x then k else k - 1)"

definition toDouble :: "rat \<Rightarrow> jsnum" where
  "toDouble x =
     (if x = 0 then Num 0
      else let a = \<bar>x\<bar>;
               t = max (exponent a - 52) (- 1074);
               v = of_int (roundHalfEven (a / 2 powi t)) * 2 powi t
           in if of_int (2 ^ 1024) \<le> v then (if 0 < x then PInf else NInf)
              else Num (if 0 < x then v else - v))"

text \<open>
  The values of the Number type among the values of \<open>jsnum\<close>: a finite one is a rational
  that rounding leaves as it is. \<open>finite_num\<close> are the finite ones.
\<close>

fun isNumber :: "jsnum \<Rightarrow> bool" where
  "isNumber (Num x) = (toDouble x = Num x)"
| "isNumber PInf = True"
| "isNumber NInf = True"
| "isNumber NaN = True"

fun finite_num :: "jsnum \<Rightarrow> bool" where
  "finite_num (Num x) = (toDouble x = Num x)"
| "finite_num PInf = False"
| "finite_num NInf = False"
| "finite_num NaN = False"

text \<open>
  \<^verbatim>\<open>a + b\<close> and \<^verbatim>\<open>a - b\<close>: the exact result rounded; \<^verbatim>\<open>NaN\<close> absorbs, and so do the
  infinities, except that \<^verbatim>\<open>Infinity - Infinity\<close> is \<^verbatim>\<open>NaN\<close>.
\<close>

fun js_add :: "jsnum \<Rightarrow> jsnum \<Rightarrow> jsnum" where
  "js_add (Num a) (Num b) = toDouble (a + b)"
| "js_add NaN b = NaN"
| "js_add a NaN = NaN"
| "js_add PInf NInf = NaN"
| "js_add NInf PInf = NaN"
| "js_add PInf b = PInf"
| "js_add NInf b = NInf"
| "js_add (Num a) PInf = PInf"
| "js_add (Num a) NInf = NInf"

fun js_sub :: "jsnum \<Rightarrow> jsnum \<Rightarrow> jsnum" where
  "js_sub (Num a) (Num b) = toDouble (a - b)"
| "js_sub NaN b = NaN"
| "js_sub a NaN = NaN"
| "js_sub PInf PInf = NaN"
| "js_sub NInf NInf = NaN"
| "js_sub PInf b = PInf"
| "js_sub NInf b = NInf"
| "js_sub (Num a) PInf = NInf"
| "js_sub (Num a) NInf = PInf"

text \<open>\<^verbatim>\<open>a <= b\<close>: every comparison with \<^verbatim>\<open>NaN\<close> is false.\<close>

fun js_le :: "jsnum \<Rightarrow> jsnum \<Rightarrow> bool" where
  "js_le (Num a) (Num b) = (a \<le> b)"
| "js_le NaN b = False"
| "js_le a NaN = False"
| "js_le NInf b = True"
| "js_le a PInf = True"
| "js_le PInf b = False"
| "js_le (Num a) NInf = False"

text \<open>The truth value of a number in a condition: \<^verbatim>\<open>0\<close> and \<^verbatim>\<open>NaN\<close> are falsy.\<close>

fun truthy :: "jsnum \<Rightarrow> bool" where
  "truthy (Num a) = (a \<noteq> 0)"
| "truthy PInf = True"
| "truthy NInf = True"
| "truthy NaN = False"

text \<open>
  The sum of a list of numbers as \<^verbatim>\<open>+\<close> computes it, from \<^verbatim>\<open>0\<close> and from left to right,
  each partial sum rounded.
\<close>

definition js_sum :: "jsnum list \<Rightarrow> jsnum" where
  "js_sum xs = foldl js_add (Num 0) xs"

subsection \<open>Array.prototype.sort\<close>

text \<open>
  \<^verbatim>\<open>xs.sort(cmp)\<close> orders by the sign of \<^verbatim>\<open>cmp(a, b)\<close>, where a result of \<^verbatim>\<open>NaN\<close> counts as
  \<^verbatim>\<open>0\<close>: negative puts \<^verbatim>\<open>a\<close> first, positive puts \<^verbatim>\<open>b\<close> first, and elements that compare as
  \<^verbatim>\<open>0\<close> keep their order (the sort is stable).
\<close>

fun cmpSign :: "jsnum \<Rightarrow> int" where
  "cmpSign (Num v) = (if v < 0 then - 1 else if v = 0 then 0 else 1)"
| "cmpSign PInf = 1"
| "cmpSign NInf = - 1"
| "cmpSign NaN = 0"

text \<open>
  The language fixes the result only for a comparator that is consistent on the elements
  of the array: with \<open>a =\<^sub>C b\<close> for \<^verbatim>\<open>cmp(a, b)\<close> of sign \<^verbatim>\<open>0\<close>, \<open>a <\<^sub>C b\<close> for a negative and
  \<open>a >\<^sub>C b\<close> for a positive one, \<open>=\<^sub>C\<close> is reflexive, symmetric and transitive, and \<open><\<^sub>C\<close> and
  \<open>>\<^sub>C\<close> are transitive. For any other comparator the order of the result is left to the
  engine.
\<close>

definition consistentComparator :: "('a \<Rightarrow> 'a \<Rightarrow> jsnum) \<Rightarrow> 'a list \<Rightarrow> bool" where
  "consistentComparator cmp xs \<longleftrightarrow>
     list_all (\<lambda>a. cmpSign (cmp a a) = 0) xs \<and>
     list_all (\<lambda>a. list_all (\<lambda>b. cmpSign (cmp a b) = 0 \<longrightarrow> cmpSign (cmp b a) = 0) xs) xs \<and>
     list_all (\<lambda>a. list_all (\<lambda>b. list_all (\<lambda>c.
         (cmpSign (cmp a b) = 0 \<and> cmpSign (cmp b c) = 0 \<longrightarrow> cmpSign (cmp a c) = 0) \<and>
         (cmpSign (cmp a b) < 0 \<and> cmpSign (cmp b c) < 0 \<longrightarrow> cmpSign (cmp a c) < 0) \<and>
         (0 < cmpSign (cmp a b) \<and> 0 < cmpSign (cmp b c) \<longrightarrow> 0 < cmpSign (cmp a c))) xs) xs) xs"

text \<open>
  For a consistent comparator the result is the one of the stable insertion sort, whatever
  algorithm the engine uses. \<open>sortBy\<close> is \<open>None\<close> where the language does not fix the order.
\<close>

fun insertBy :: "('a \<Rightarrow> 'a \<Rightarrow> jsnum) \<Rightarrow> 'a \<Rightarrow> 'a list \<Rightarrow> 'a list" where
  "insertBy cmp x [] = [x]"
| "insertBy cmp x (y # ys) =
     (if cmpSign (cmp x y) \<le> 0 then x # y # ys else y # insertBy cmp x ys)"

definition sortBy :: "('a \<Rightarrow> 'a \<Rightarrow> jsnum) \<Rightarrow> 'a list \<Rightarrow> 'a list option" where
  "sortBy cmp xs =
     (if consistentComparator cmp xs then Some (foldr (insertBy cmp) xs []) else None)"

text \<open>
  The place of a number that is not \<^verbatim>\<open>NaN\<close> in the descending order of the numbers, for the
  proofs about the two comparators of the application, which are differences.
\<close>

fun descendingKey :: "jsnum \<Rightarrow> int \<times> rat" where
  "descendingKey (Num v) = (0, - v)"
| "descendingKey PInf = (- 1, 0)"
| "descendingKey NInf = (1, 0)"
| "descendingKey NaN = (0, 0)"

text \<open>Every finite double is an integer multiple of \<open>2 ^ (- 1074)\<close>.\<close>

definition onGrid :: "rat \<Rightarrow> bool" where
  "onGrid x \<longleftrightarrow> x * 2 ^ 1074 \<in> \<int>"

fun onGridNumber :: "jsnum \<Rightarrow> bool" where
  "onGridNumber (Num x) = onGrid x"
| "onGridNumber PInf = True"
| "onGridNumber NInf = True"
| "onGridNumber NaN = True"

subsection \<open>Plain objects as maps\<close>

text \<open>
  The application keeps its maps from document id in plain objects (\<^verbatim>\<open>{}\<close>). Reading
  \<^verbatim>\<open>obj[k]\<close> gives the own property \<^verbatim>\<open>k\<close> if the object has one, and otherwise what
  \<^verbatim>\<open>Object.prototype\<close> has under that name: a function for eleven names, and
  \<^verbatim>\<open>Object.prototype\<close> itself for \<^verbatim>\<open>__proto__\<close>; for every other name it gives
  \<^verbatim>\<open>undefined\<close>.
\<close>

definition objectPrototypeNames :: "string list" where
  "objectPrototypeNames =
     [''constructor'', ''__defineGetter__'', ''__defineSetter__'', ''hasOwnProperty'',
      ''__lookupGetter__'', ''__lookupSetter__'', ''isPrototypeOf'', ''propertyIsEnumerable'',
      ''toString'', ''valueOf'', ''__proto__'', ''toLocaleString'']"

datatype 'a property = Own 'a | Inherited | Undefined

definition getProperty :: "(string \<rightharpoonup> 'a) \<Rightarrow> string \<Rightarrow> 'a property" where
  "getProperty obj k =
     (case obj k of
        Some v \<Rightarrow> Own v
      | None \<Rightarrow> if k \<in> set objectPrototypeNames then Inherited else Undefined)"

text \<open>
  The assignment \<^verbatim>\<open>obj[k] = v\<close> of a number or a string creates or replaces the own property
  \<^verbatim>\<open>k\<close>, except for \<^verbatim>\<open>__proto__\<close>, where it calls the setter of \<^verbatim>\<open>Object.prototype\<close>, which
  ignores a value that is not an object.
\<close>

definition setProperty :: "(string \<rightharpoonup> 'a) \<Rightarrow> string \<Rightarrow> 'a \<Rightarrow> (string \<rightharpoonup> 'a)" where
  "setProperty obj k v = (if k = ''__proto__'' then obj else obj(k \<mapsto> v))"

section \<open>The document store\<close>

text \<open>
  The application keeps three Firestore collections, \<^verbatim>\<open>sportsday_events\<close>,
  \<^verbatim>\<open>sportsday_participants\<close> and \<^verbatim>\<open>sportsday_scores\<close>. A collection is the list of its
  documents, document id with data, in the order a snapshot lists them.
\<close>

type_synonym docid = string

record event_data =
  eventName :: string
  eventType :: string

record participant_data =
  name :: string
  house :: string

record score_data =
  eventId :: docid
  participantId :: docid
  score :: jsnum
  timestamp :: int

text \<open>
  \<open>calls\<close> counts the requests this client has made for the time (\<^verbatim>\<open>new Date()\<close>) and for
  an automatic document id (\<^verbatim>\<open>addDoc\<close>); the environment answers the \<open>n\<close>-th request.
\<close>

record world =
  eventDocs :: "(docid \<times> event_data) list"
  participantDocs :: "(docid \<times> participant_data) list"
  scoreDocs :: "(docid \<times> score_data) list"
  calls :: nat

datatype collection = Events | Participants | Scores

datatype store_op =
    GetDocs collection
  | AddDoc collection
  | UpdateDoc collection docid
  | DeleteDoc collection docid

text \<open>
  A store operation can be rejected by the backend (permission denied, store unavailable):
  its promise rejects and the collection is unchanged. \<^verbatim>\<open>updateDoc\<close> also rejects when the
  document does not exist; \<^verbatim>\<open>deleteDoc\<close> of a missing document succeeds. \<^verbatim>\<open>doc(db, path, id)\<close>
  throws when \<^verbatim>\<open>id\<close> is not a string.
\<close>

datatype store_error = Rejected | NotFound | AlreadyExists | InvalidArgument

record env =
  denied :: "store_op \<Rightarrow> bool"
  dateAt :: "nat \<Rightarrow> int"
  idAt :: "nat \<Rightarrow> docid"

text \<open>What a component shows the user: a text, or a text followed by \<^verbatim>\<open>e.message\<close>.\<close>

datatype notice = Message string | Failure string store_error

definition newDate :: "env \<Rightarrow> world \<Rightarrow> int \<times> world" where
  "newDate en w = (dateAt en (calls w), w\<lparr>calls := Suc (calls w)\<rparr>)"

definition deleteEventDoc :: "env \<Rightarrow> docid \<Rightarrow> world \<Rightarrow> store_error + world" where
  "deleteEventDoc en i w =
     (if denied en (DeleteDoc Events i) then Inl Rejected
      else Inr (w\<lparr>eventDocs := filter (\<lambda>d. fst d \<noteq> i) (eventDocs w)\<rparr>))"

definition deleteParticipantDoc :: "env \<Rightarrow> docid \<Rightarrow> world \<Rightarrow> store_error + world" where
  "deleteParticipantDoc en i w =
     (if denied en (DeleteDoc Participants i) then Inl Rejected
      else Inr (w\<lparr>participantDocs := filter (\<lambda>d. fst d \<noteq> i) (participantDocs w)\<rparr>))"

definition deleteScoreDoc :: "env \<Rightarrow> docid \<Rightarrow> world \<Rightarrow> store_error + world" where
  "deleteScoreDoc en i w =
     (if denied en (DeleteDoc Scores i) then Inl Rejected
      else Inr (w\<lparr>scoreDocs := filter (\<lambda>d. fst d \<noteq> i) (scoreDocs w)\<rparr>))"

text \<open>
  \<^verbatim>\<open>updateDoc(ref, scoreData)\<close> sets the four fields of \<^verbatim>\<open>scoreData\<close>, which are all the fields
  a score document has.
\<close>

definition updateScoreDoc :: "env \<Rightarrow> docid \<Rightarrow> score_data \<Rightarrow> world \<Rightarrow> store_error + world" where
  "updateScoreDoc en i d w =
     (if denied en (UpdateDoc Scores i) then Inl Rejected
      else if i \<notin> set (map fst (scoreDocs w)) then Inl NotFound
      else Inr (w\<lparr>scoreDocs := map (\<lambda>e. if fst e = i then (i, d) else e) (scoreDocs w)\<rparr>))"

text \<open>\<^verbatim>\<open>addDoc(scoresColRef, scoreData)\<close> creates a document under a new automatic id.\<close>

definition addScoreDoc :: "env \<Rightarrow> score_data \<Rightarrow> world \<Rightarrow> store_error + world" where
  "addScoreDoc en d w =
     (let i = idAt en (calls w) in
      if denied en (AddDoc Scores) then Inl Rejected
      else if i \<in> set (map fst (scoreDocs w)) then Inl AlreadyExists
      else Inr (w\<lparr>scoreDocs := scoreDocs w @ [(i, d)], calls := Suc (calls w)\<rparr>))"

text \<open>\<^verbatim>\<open>getDocs(query(scoresCol, where(...)))\<close>: the documents whose data satisfy the filter.\<close>

definition getScoreDocs ::
  "env \<Rightarrow> (score_data \<Rightarrow> bool) \<Rightarrow> world \<Rightarrow> store_error + (docid \<times> score_data) list" where
  "getScoreDocs en P w =
     (if denied en (GetDocs Scores) then Inl Rejected
      else Inr (filter (\<lambda>d. P (snd d)) (scoreDocs w)))"

section \<open>Deleting an event or a participant\<close>

text \<open>
  \<^verbatim>\<open>
  await deleteDoc(doc(db, ".../sportsday_events", eventId));
  // Also delete associated scores
  const scoresQuery = query(collection(db, ".../sportsday_scores"), where("eventId", "==", eventId));
  const scoresSnapshot = await getDocs(scoresQuery);
  scoresSnapshot.forEach(async (scoreDoc) => {
    await deleteDoc(doc(db, ".../sportsday_scores", scoreDoc.id));
  });
  setModalMessage("Event and its scores deleted successfully!");
  \<close>
  The first two promises are awaited inside the \<^verbatim>\<open>try\<close>: a rejection goes to the
  \<^verbatim>\<open>catch\<close>. The callback given to \<^verbatim>\<open>forEach\<close> is an async function whose promise
  \<^verbatim>\<open>forEach\<close> drops: the handler does not wait for these deletions, and a rejection of one
  of them reaches no \<^verbatim>\<open>catch\<close>. \<open>detached\<close> is such a call: its effect if it succeeds,
  nothing if it is rejected.
\<close>

definition detached :: "world \<Rightarrow> store_error + world \<Rightarrow> world" where
  "detached w r = (case r of Inl e \<Rightarrow> w | Inr w' \<Rightarrow> w')"

definition deleteEach :: "env \<Rightarrow> (docid \<times> score_data) list \<Rightarrow> world \<Rightarrow> world" where
  "deleteEach en snapshot w =
     foldl (\<lambda>w' scoreDoc. detached w' (deleteScoreDoc en (fst scoreDoc) w')) w snapshot"

definition handleDeleteEvent :: "env \<Rightarrow> docid \<Rightarrow> world \<Rightarrow> world \<times> notice" where
  "handleDeleteEvent en ev w =
     (case deleteEventDoc en ev w of
        Inl e \<Rightarrow> (w, Failure ''Error deleting event: '' e)
      | Inr w1 \<Rightarrow>
          (case getScoreDocs en (\<lambda>d. eventId d = ev) w1 of
             Inl e \<Rightarrow> (w1, Failure ''Error deleting event: '' e)
           | Inr scoresSnapshot \<Rightarrow>
               (deleteEach en scoresSnapshot w1,
                Message ''Event and its scores deleted successfully!'')))"

definition handleDeleteParticipant :: "env \<Rightarrow> docid \<Rightarrow> world \<Rightarrow> world \<times> notice" where
  "handleDeleteParticipant en pid w =
     (case deleteParticipantDoc en pid w of
        Inl e \<Rightarrow> (w, Failure ''Error deleting participant: '' e)
      | Inr w1 \<Rightarrow>
          (case getScoreDocs en (\<lambda>d. participantId d = pid) w1 of
             Inl e \<Rightarrow> (w1, Failure ''Error deleting participant: '' e)
           | Inr scoresSnapshot \<Rightarrow>
               (deleteEach en scoresSnapshot w1,
                Message ''Participant and their scores deleted successfully!'')))"

section \<open>Score entry\<close>

subsection \<open>The input filter\<close>

text \<open>
  \<^verbatim>\<open>handleScoreChange\<close> tests the candidate against the regular expression
  \<^verbatim>\<open>/^\d*\.?\d*$/\<close>. Regular expressions are a datatype, and \<^verbatim>\<open>test\<close> between the anchors
  \<^verbatim>\<open>^\<close> and \<^verbatim>\<open>$\<close> is matching of the whole string, computed with derivatives.
  \<^verbatim>\<open>\d\<close> stands for the ten ASCII digits.
\<close>

datatype regex =
    Zero
  | One
  | Digit
  | Lit char
  | Alt regex regex
  | Seq regex regex
  | Star regex

definition Opt :: "regex \<Rightarrow> regex" where
  "Opt r = Alt r One"

definition isDigit :: "char \<Rightarrow> bool" where
  "isDigit c \<longleftrightarrow> c \<in> set ''0123456789''"

fun nullable :: "regex \<Rightarrow> bool" where
  "nullable Zero = False"
| "nullable One = True"
| "nullable Digit = False"
| "nullable (Lit c) = False"
| "nullable (Alt r s) = (nullable r \<or> nullable s)"
| "nullable (Seq r s) = (nullable r \<and> nullable s)"
| "nullable (Star r) = True"

fun deriv :: "char \<Rightarrow> regex \<Rightarrow> regex" where
  "deriv c Zero = Zero"
| "deriv c One = Zero"
| "deriv c Digit = (if isDigit c then One else Zero)"
| "deriv c (Lit d) = (if c = d then One else Zero)"
| "deriv c (Alt r s) = Alt (deriv c r) (deriv c s)"
| "deriv c (Seq r s) =
     (if nullable r then Alt (Seq (deriv c r) s) (deriv c s) else Seq (deriv c r) s)"
| "deriv c (Star r) = Seq (deriv c r) (Star r)"

fun regexTest :: "regex \<Rightarrow> string \<Rightarrow> bool" where
  "regexTest r [] = nullable r"
| "regexTest r (c # cs) = regexTest (deriv c r) cs"

definition scoreRegex :: regex where
  "scoreRegex = Seq (Star Digit) (Seq (Opt (Lit (CHR ''.''))) (Star Digit))"

text \<open>
  The \<^verbatim>\<open>scores\<close> state maps a participant id to what its input shows: the number loaded
  from the store by the snapshot listener, or the string the user typed.
\<close>

datatype field = Loaded jsnum | Typed string

definition handleScoreChange ::
  "(docid \<rightharpoonup> field) \<Rightarrow> docid \<Rightarrow> string \<Rightarrow> (docid \<rightharpoonup> field)" where
  "handleScoreChange scores pid val =
     (if val = [] \<or> regexTest scoreRegex val then scores(pid \<mapsto> Typed val) else scores)"

text \<open>
  The words of the specification, for comparison: an unsigned decimal number pattern, that
  is digits with at most one decimal point.
\<close>

definition unsignedDecimal :: "string \<Rightarrow> bool" where
  "unsignedDecimal v \<longleftrightarrow>
     (\<forall>c \<in> set v. isDigit c \<or> c = CHR ''.'') \<and> length (filter (\<lambda>c. c = CHR ''.'') v) \<le> 1"

text \<open>The language of a regular expression, the meaning \<open>regexTest\<close> is checked against.\<close>

inductive_set star :: "string set \<Rightarrow> string set" for A :: "string set" where
  star_empty: "[] \<in> star A"
| star_app: "u \<in> A \<Longrightarrow> v \<in> star A \<Longrightarrow> u @ v \<in> star A"

fun lang :: "regex \<Rightarrow> string set" where
  "lang Zero = {}"
| "lang One = {[]}"
| "lang Digit = {[c] | c. isDigit c}"
| "lang (Lit d) = {[d]}"
| "lang (Alt r s) = lang r \<union> lang s"
| "lang (Seq r s) = {u @ v | u v. u \<in> lang r \<and> v \<in> lang s}"
| "lang (Star r) = star (lang r)"

subsection \<open>parseFloat\<close>

text \<open>
  \<^verbatim>\<open>parseFloat\<close> reads the longest prefix of its argument that is a decimal literal and
  returns the double nearest to the value of the literal, \<^verbatim>\<open>Infinity\<close> when that is out of
  range, and \<^verbatim>\<open>NaN\<close> when there is no literal. The definition covers the literals made of
  digits and a decimal point, which are the ones a string that passed the input filter can
  start with; signs, exponents, leading white space and the word \<^verbatim>\<open>Infinity\<close> are not
  covered. (The language lets an engine look at the first 20 significant digits only; the
  definition rounds the exact value, as the engines in use do.)
\<close>

definition digitValue :: "char \<Rightarrow> int" where
  "digitValue c = of_char c - 48"

definition digitsValue :: "string \<Rightarrow> int" where
  "digitsValue ds = foldl (\<lambda>a c. 10 * a + digitValue c) 0 ds"

definition parseFloat :: "string \<Rightarrow> jsnum" where
  "parseFloat v =
     (let ip = takeWhile isDigit v;
          rest = dropWhile isDigit v;
          fp = (case rest of [] \<Rightarrow> [] | c # r \<Rightarrow> if c = CHR ''.'' then takeWhile isDigit r else [])
      in if ip = [] \<and> fp = [] then NaN
         else toDouble (of_int (digitsValue ip) + of_int (digitsValue fp) / 10 ^ length fp))"

text \<open>
  \<^verbatim>\<open>parseFloat(scoreValue)\<close> on what \<^verbatim>\<open>scores[participant.id]\<close> gives. A number is converted
  to a string first and read back, which gives the number again. An inherited property is
  a function or \<^verbatim>\<open>Object.prototype\<close>, whose string does not start with a number.
\<close>

fun parseField :: "field property \<Rightarrow> jsnum" where
  "parseField (Own (Loaded n)) = n"
| "parseField (Own (Typed v)) = parseFloat v"
| "parseField Inherited = NaN"
| "parseField Undefined = NaN"

subsection \<open>The snapshot listener\<close>

text \<open>
  \<^verbatim>\<open>
  snapshot.docs.forEach(doc => {
    const data = doc.data();
    currentScores[data.participantId] = data.score;
    currentExistingScores[data.participantId] = doc.id;
  });
  setScores(currentScores);
  setExistingScores(currentExistingScores);
  \<close>
  on the documents of the query \<^verbatim>\<open>where("eventId", "==", eventId)\<close>. The callback runs when
  the store delivers a snapshot; until the next one the component keeps the two objects
  built from this one.
\<close>

definition currentScores :: "(docid \<times> score_data) list \<Rightarrow> (docid \<rightharpoonup> field)" where
  "currentScores docs =
     foldl (\<lambda>m d. setProperty m (participantId (snd d)) (Loaded (score (snd d)))) Map.empty docs"

definition currentExistingScores :: "(docid \<times> score_data) list \<Rightarrow> (docid \<rightharpoonup> docid)" where
  "currentExistingScores docs =
     foldl (\<lambda>m d. setProperty m (participantId (snd d)) (fst d)) Map.empty docs"

definition eventScoreDocs :: "docid \<Rightarrow> world \<Rightarrow> (docid \<times> score_data) list" where
  "eventScoreDocs ev w = filter (\<lambda>d. eventId (snd d) = ev) (scoreDocs w)"

subsection \<open>Saving\<close>

text \<open>
  \<^verbatim>\<open>handleSubmit\<close> works on the \<^verbatim>\<open>participants\<close>, \<^verbatim>\<open>scores\<close> and \<^verbatim>\<open>existingScores\<close> of the
  render in which the form was submitted: they are parameters here, and nothing ties
  \<^verbatim>\<open>existingScores\<close> to the store the writes go to, since the listener may not have delivered
  the latest documents.

  The body of the loop for one participant. \<open>entered\<close> is
  \<^verbatim>\<open>scoreValue !== undefined && scoreValue !== null && scoreValue !== ''\<close>. A document id is
  a non-empty string, so \<^verbatim>\<open>if (existingScores[participant.id])\<close> holds for an own entry and
  for an inherited property; with the latter \<^verbatim>\<open>doc(...)\<close> is given a function and throws.
\<close>

fun entered :: "field property \<Rightarrow> bool" where
  "entered Undefined = False"
| "entered Inherited = True"
| "entered (Own (Typed v)) = (v \<noteq> [])"
| "entered (Own (Loaded n)) = True"

definition saveParticipantScore ::
  "env \<Rightarrow> docid \<Rightarrow> (docid \<rightharpoonup> field) \<Rightarrow> (docid \<rightharpoonup> docid) \<Rightarrow> docid \<Rightarrow> world
     \<Rightarrow> store_error + world" where
  "saveParticipantScore en ev scores existingScores pid w =
     (let scoreValue = getProperty scores pid in
      if entered scoreValue then
        (let (now, w1) = newDate en w;
             scoreData = \<lparr>eventId = ev, participantId = pid,
                          score = parseField scoreValue, timestamp = now\<rparr>
         in case getProperty existingScores pid of
              Own sid \<Rightarrow> updateScoreDoc en sid scoreData w1
            | Inherited \<Rightarrow> Inl InvalidArgument
            | Undefined \<Rightarrow> addScoreDoc en scoreData w1)
      else (case getProperty existingScores pid of
              Own sid \<Rightarrow> deleteScoreDoc en sid w
            | Inherited \<Rightarrow> Inl InvalidArgument
            | Undefined \<Rightarrow> Inr w))"

text \<open>
  \<^verbatim>\<open>for (const participant of participants) { ... }\<close> inside the \<^verbatim>\<open>try\<close>: the first
  rejected operation ends the loop, with the writes made so far in place. Each write is
  awaited, so other clients and components can write between two passes of the loop;
  \<open>saveAll\<close> is the loop when nothing else writes meanwhile.
\<close>

fun saveAll ::
  "env \<Rightarrow> docid \<Rightarrow> (docid \<rightharpoonup> field) \<Rightarrow> (docid \<rightharpoonup> docid)
     \<Rightarrow> (docid \<times> participant_data) list \<Rightarrow> world \<Rightarrow> world \<times> store_error option" where
  "saveAll en ev scores existingScores [] w = (w, None)"
| "saveAll en ev scores existingScores (participant # rest) w =
     (case saveParticipantScore en ev scores existingScores (fst participant) w of
        Inl e \<Rightarrow> (w, Some e)
      | Inr w' \<Rightarrow> saveAll en ev scores existingScores rest w')"

text \<open>\<open>None\<close> as the notice is the call of \<^verbatim>\<open>onSave()\<close>, which closes the form.\<close>

definition handleSubmit ::
  "env \<Rightarrow> bool \<Rightarrow> docid \<Rightarrow> (docid \<times> participant_data) list \<Rightarrow> (docid \<rightharpoonup> field)
     \<Rightarrow> (docid \<rightharpoonup> docid) \<Rightarrow> world \<Rightarrow> world \<times> notice option" where
  "handleSubmit en ready ev participants scores existingScores w =
     (if \<not> ready then (w, Some (Message ''Database not ready. Please wait.''))
      else case saveAll en ev scores existingScores participants w of
             (w', None) \<Rightarrow> (w', None)
           | (w', Some e) \<Rightarrow> (w', Some (Failure ''Failed to save scores: '' e)))"

section \<open>Rankings and standings\<close>

text \<open>
  \<^verbatim>\<open>EventScoresView\<close>: the listener sorts the documents of the event's query with
  \<^verbatim>\<open>scoresData.sort((a, b) => b.score - a.score)\<close>.
\<close>

definition byScore :: "(docid \<times> score_data) \<Rightarrow> (docid \<times> score_data) \<Rightarrow> jsnum" where
  "byScore a b = js_sub (score (snd b)) (score (snd a))"

definition rankScores :: "(docid \<times> score_data) list \<Rightarrow> (docid \<times> score_data) list option" where
  "rankScores scoresData = sortBy byScore scoresData"

definition eventRanking :: "docid \<Rightarrow> world \<Rightarrow> (docid \<times> score_data) list option" where
  "eventRanking ev w = rankScores (eventScoreDocs ev w)"

text \<open>Descending order of score: each score is \<^verbatim>\<open>>=\<close> every score after it.\<close>

definition descendingByScore :: "(docid \<times> score_data) list \<Rightarrow> bool" where
  "descendingByScore scoresData \<longleftrightarrow>
     sorted_wrt (\<lambda>a b. js_le (score (snd b)) (score (snd a))) scoresData"

text \<open>
  \<^verbatim>\<open>OverallStandings\<close>.
  \<^verbatim>\<open>
  const participantScores = {};
  allScores.forEach(score => {
    if (participantScores[score.participantId]) {
      participantScores[score.participantId] += score.score;
    } else {
      participantScores[score.participantId] = score.score;
    }
  });
  \<close>
  The condition is the truth value of what the object gives under the id: an own total
  that is \<^verbatim>\<open>0\<close> or \<^verbatim>\<open>NaN\<close> and a missing entry take the second branch. For an id that is
  the name of a method of \<^verbatim>\<open>Object.prototype\<close> the object gives the method, which is
  truthy, and \<^verbatim>\<open>+=\<close> stores the text of the method followed by the score; for \<^verbatim>\<open>__proto__\<close>
  it gives \<^verbatim>\<open>Object.prototype\<close>, and the text that \<^verbatim>\<open>+=\<close> assigns is ignored by the setter,
  so that no entry is made. A total is therefore a number or such a text (\<open>Text\<close>, whose
  characters are not represented: it is not empty, and it is not the text of a number).

  The object is the list of its own entries in the order in which they were created.
\<close>

datatype total = Number jsnum | Text

fun truthyTotal :: "total \<Rightarrow> bool" where
  "truthyTotal (Number n) = truthy n"
| "truthyTotal Text = True"

text \<open>\<^verbatim>\<open>sofar + n\<close> for a number \<^verbatim>\<open>n\<close>: addition of numbers, concatenation for a text.\<close>

fun plusNumber :: "total \<Rightarrow> jsnum \<Rightarrow> total" where
  "plusNumber (Number a) n = Number (js_add a n)"
| "plusNumber Text n = Text"

definition tally :: "(docid \<times> total) list \<Rightarrow> score_data \<Rightarrow> (docid \<times> total) list" where
  "tally participantScores s =
     (case getProperty (map_of participantScores) (participantId s) of
        Own sofar \<Rightarrow>
          if truthyTotal sofar
          then AList.update (participantId s) (plusNumber sofar (score s)) participantScores
          else AList.update (participantId s) (Number (score s)) participantScores
      | Inherited \<Rightarrow>
          if participantId s = ''__proto__'' then participantScores
          else AList.update (participantId s) Text participantScores
      | Undefined \<Rightarrow> AList.update (participantId s) (Number (score s)) participantScores)"

definition participantTotals :: "score_data list \<Rightarrow> (docid \<times> total) list" where
  "participantTotals allScores = foldl tally [] allScores"

text \<open>
  \<^verbatim>\<open>Object.keys(participantScores)\<close> lists the keys that are array indices first, in
  ascending numeric order, and then the other keys in the order of their creation. An
  array index is the decimal form, without leading zeros, of an integer below
  \<open>2 ^ 32 - 1\<close>. \<open>objectKeys\<close> gives each key with the value the object has under it, which
  is what \<^verbatim>\<open>participantScores[participantId]\<close> reads back for a key of the object.
\<close>

definition arrayIndex :: "string \<Rightarrow> bool" where
  "arrayIndex k \<longleftrightarrow>
     k \<noteq> [] \<and> list_all isDigit k \<and> (k = ''0'' \<or> hd k \<noteq> CHR ''0'') \<and>
     digitsValue k < 2 ^ 32 - 1"

definition objectKeys :: "(string \<times> 'a) list \<Rightarrow> (string \<times> 'a) list" where
  "objectKeys entries =
     sort_key (\<lambda>e. digitsValue (fst e)) (filter (\<lambda>e. arrayIndex (fst e)) entries) @
     filter (\<lambda>e. \<not> arrayIndex (fst e)) entries"

record standing =
  standingId :: docid
  standingName :: string
  standingHouse :: string
  totalScore :: total

text \<open>
  \<^verbatim>\<open>participantsMap[doc.id] = doc.data()\<close> for each participant document (Firestore admits
  no document id of the form \<^verbatim>\<open>__.*__\<close>, so the key is never \<^verbatim>\<open>__proto__\<close>), and
  \<^verbatim>\<open>participantsMap[participantId]?.name || 'Unknown'\<close>: the placeholder also stands in for
  an empty name. Where the map has no own entry under a name of \<^verbatim>\<open>Object.prototype\<close>, the
  lookup gives the inherited function, whose \<^verbatim>\<open>name\<close> is the name of the property
  (\<^verbatim>\<open>Object\<close> for \<^verbatim>\<open>constructor\<close>) and whose \<^verbatim>\<open>house\<close> is \<^verbatim>\<open>undefined\<close>.
\<close>

definition participantsMap ::
  "(docid \<times> participant_data) list \<Rightarrow> (docid \<rightharpoonup> participant_data)" where
  "participantsMap docs = foldl (\<lambda>m d. m(fst d \<mapsto> snd d)) Map.empty docs"

definition orElse :: "string option \<Rightarrow> string \<Rightarrow> string" where
  "orElse v d = (case v of None \<Rightarrow> d | Some x \<Rightarrow> if x = [] then d else x)"

definition nameOf :: "(docid \<rightharpoonup> participant_data) \<Rightarrow> docid \<Rightarrow> string option" where
  "nameOf pm k =
     (case getProperty pm k of
        Own d \<Rightarrow> Some (name d)
      | Inherited \<Rightarrow>
          if k = ''__proto__'' then None
          else if k = ''constructor'' then Some ''Object'' else Some k
      | Undefined \<Rightarrow> None)"

definition houseOf :: "(docid \<rightharpoonup> participant_data) \<Rightarrow> docid \<Rightarrow> string option" where
  "houseOf pm k = (case getProperty pm k of Own d \<Rightarrow> Some (house d) | _ \<Rightarrow> None)"

definition makeStanding :: "(docid \<rightharpoonup> participant_data) \<Rightarrow> docid \<times> total \<Rightarrow> standing" where
  "makeStanding pm e =
     \<lparr>standingId = fst e,
      standingName = orElse (nameOf pm (fst e)) ''Unknown'',
      standingHouse = orElse (houseOf pm (fst e)) ''N/A'',
      totalScore = snd e\<rparr>"

text \<open>
  \<^verbatim>\<open>calculatedStandings.sort((a, b) => b.totalScore - a.totalScore)\<close>; the difference
  converts a text to a number, which gives \<^verbatim>\<open>NaN\<close> for the texts that occur.
\<close>

fun toNumber :: "total \<Rightarrow> jsnum" where
  "toNumber (Number n) = n"
| "toNumber Text = NaN"

definition byTotal :: "standing \<Rightarrow> standing \<Rightarrow> jsnum" where
  "byTotal a b = js_sub (toNumber (totalScore b)) (toNumber (totalScore a))"

definition calculateStandings ::
  "(docid \<times> participant_data) list \<Rightarrow> score_data list \<Rightarrow> standing list option" where
  "calculateStandings participantDocuments allScores =
     sortBy byTotal
       (map (makeStanding (participantsMap participantDocuments))
          (objectKeys (participantTotals allScores)))"

definition overallStandings :: "world \<Rightarrow> standing list option" where
  "overallStandings w = calculateStandings (participantDocs w) (map snd (scoreDocs w))"

text \<open>Descending order of total.\<close>

definition descendingByTotal :: "standing list \<Rightarrow> bool" where
  "descendingByTotal rows \<longleftrightarrow>
     sorted_wrt (\<lambda>a b. js_le (toNumber (totalScore b)) (toNumber (totalScore a))) rows"

section \<open>The stopwatch component\<close>

text \<open>
  The \<^verbatim>\<open>Stopwatch\<close> component of \<^verbatim>\<open>src/App.js\<close> keeps its state in React state hooks
  (\<^verbatim>\<open>isRunning\<close>, \<^verbatim>\<open>elapsedTime\<close>, \<^verbatim>\<open>laps\<close>, \<^verbatim>\<open>selectedEvent\<close>,
  \<^verbatim>\<open>selectedParticipant\<close>, \<^verbatim>\<open>saveMessage\<close>) and in two refs (\<^verbatim>\<open>intervalRef\<close>,
  \<^verbatim>\<open>startTimeRef\<close>). Times are milliseconds, as \<^verbatim>\<open>Date.now()\<close> gives them: integers.

  The browser's side of \<^verbatim>\<open>setInterval\<close>/\<^verbatim>\<open>clearInterval\<close> is made explicit: \<open>timers\<close> is the
  list of interval handles that are live, \<open>nextTimer\<close> the next handle \<^verbatim>\<open>setInterval\<close> returns.
  \<open>effectDeps\<close> is the dependency array \<^verbatim>\<open>[isRunning, elapsedTime]\<close> of the last run of the
  sampling effect (\<open>None\<close> before the component has mounted).
\<close>

record stopwatch =
  isRunning :: bool
  elapsedTime :: int
  laps :: "int list"
  selectedEvent :: string
  selectedParticipant :: string
  saveMessage :: notice
  intervalRef :: "nat option"
  startTimeRef :: int
  timers :: "nat list"
  nextTimer :: nat
  effectDeps :: "(bool \<times> int) option"

definition initialStopwatch :: stopwatch where
  "initialStopwatch =
     \<lparr>isRunning = False, elapsedTime = 0, laps = [], selectedEvent = [],
      selectedParticipant = [], saveMessage = Message [], intervalRef = None, startTimeRef = 0,
      timers = [], nextTimer = 1, effectDeps = None\<rparr>"

subsection \<open>The button handlers\<close>

definition startStopwatch :: "stopwatch \<Rightarrow> stopwatch" where
  "startStopwatch s = s\<lparr>isRunning := True, saveMessage := Message []\<rparr>"

definition stopStopwatch :: "stopwatch \<Rightarrow> stopwatch" where
  "stopStopwatch s = s\<lparr>isRunning := False\<rparr>"

definition resetStopwatch :: "stopwatch \<Rightarrow> stopwatch" where
  "resetStopwatch s =
     s\<lparr>isRunning := False, elapsedTime := 0, laps := [], saveMessage := Message []\<rparr>"

definition lapStopwatch :: "stopwatch \<Rightarrow> stopwatch" where
  "lapStopwatch s = (if isRunning s then s\<lparr>laps := laps s @ [elapsedTime s]\<rparr> else s)"

subsection \<open>The sampling effect\<close>

text \<open>
  \<^verbatim>\<open>clearInterval(intervalRef.current)\<close>: a handle that is \<^verbatim>\<open>null\<close> or no longer live is
  ignored.
\<close>

definition clearInterval :: "nat option \<Rightarrow> stopwatch \<Rightarrow> stopwatch" where
  "clearInterval h s =
     (case h of None \<Rightarrow> s | Some t \<Rightarrow> s\<lparr>timers := removeAll t (timers s)\<rparr>)"

text \<open>
  \<^verbatim>\<open>intervalRef.current = setInterval(..., 10)\<close>: the browser hands out a new handle and the
  interval is live from then on.
\<close>

definition setIntervalRef :: "stopwatch \<Rightarrow> stopwatch" where
  "setIntervalRef s =
     s\<lparr>intervalRef := Some (nextTimer s), timers := timers s @ [nextTimer s],
       nextTimer := Suc (nextTimer s)\<rparr>"

text \<open>The body of the effect; \<open>now\<close> is what \<^verbatim>\<open>Date.now()\<close> returns when it runs.\<close>

definition samplingEffect :: "int \<Rightarrow> stopwatch \<Rightarrow> stopwatch" where
  "samplingEffect now s =
     (if isRunning s
      then setIntervalRef (s\<lparr>startTimeRef := now - elapsedTime s\<rparr>)
      else clearInterval (intervalRef s) s)"

text \<open>The function the effect returns: \<^verbatim>\<open>() => clearInterval(intervalRef.current)\<close>.\<close>

definition samplingCleanup :: "stopwatch \<Rightarrow> stopwatch" where
  "samplingCleanup s = clearInterval (intervalRef s) s"

text \<open>
  After a render React runs the effect when its dependencies \<^verbatim>\<open>[isRunning, elapsedTime]\<close>
  differ from those of its last run (always on mount): first the cleanup of the last run,
  then the body.
\<close>

definition commit :: "int \<Rightarrow> stopwatch \<Rightarrow> stopwatch" where
  "commit now s =
     (let deps = (isRunning s, elapsedTime s) in
      case effectDeps s of
        None \<Rightarrow> (samplingEffect now s)\<lparr>effectDeps := Some deps\<rparr>
      | Some old \<Rightarrow>
          if old = deps then s
          else (samplingEffect now (samplingCleanup s))\<lparr>effectDeps := Some deps\<rparr>)"

text \<open>The callback of an interval: \<^verbatim>\<open>setElapsedTime(Date.now() - startTimeRef.current)\<close>.\<close>

definition sample :: "int \<Rightarrow> stopwatch \<Rightarrow> stopwatch" where
  "sample now s = s\<lparr>elapsedTime := now - startTimeRef s\<rparr>"

text \<open>
  What can happen to a mounted stopwatch: a click on one of the four buttons, or the
  callback of the interval with handle \<open>t\<close> firing, which the browser does only for a live
  handle. JavaScript runs each handler to completion, and a transition of the model is the
  handler followed by React's commit of the state it set.
\<close>

datatype action = Start | Stop | Reset | Lap | Tick nat

fun handler :: "int \<Rightarrow> action \<Rightarrow> stopwatch \<Rightarrow> stopwatch" where
  "handler now Start s = startStopwatch s"
| "handler now Stop s = stopStopwatch s"
| "handler now Reset s = resetStopwatch s"
| "handler now Lap s = lapStopwatch s"
| "handler now (Tick t) s = (if t \<in> set (timers s) then sample now s else s)"

definition step :: "stopwatch \<Rightarrow> int \<times> action \<Rightarrow> stopwatch" where
  "step s e = commit (fst e) (handler (fst e) (snd e) s)"

text \<open>
  The component is mounted at time \<open>t0\<close> (the first commit runs the effect) and then takes
  the transitions of a trace, each with the time at which it happens.
\<close>

definition mount :: "int \<Rightarrow> stopwatch" where
  "mount t0 = commit t0 initialStopwatch"

definition run :: "int \<Rightarrow> (int \<times> action) list \<Rightarrow> stopwatch" where
  "run t0 tr = foldl step (mount t0) tr"

text \<open>
  The state between transitions, as the proofs below use it: the effect has run for the
  current state, and the live intervals are the one in \<^verbatim>\<open>intervalRef\<close> while the timer
  runs and none otherwise.
\<close>

definition synced :: "stopwatch \<Rightarrow> bool" where
  "synced s \<longleftrightarrow>
     effectDeps s = Some (isRunning s, elapsedTime s) \<and>
     timers s = (if isRunning s then (case intervalRef s of None \<Rightarrow> [] | Some t \<Rightarrow> [t]) else []) \<and>
     (isRunning s \<longrightarrow> intervalRef s \<noteq> None)"

subsection \<open>Recording the time as a score\<close>

text \<open>
  \<^verbatim>\<open>const scoreInSeconds = elapsedTime / 1000\<close>: the quotient, rounded. (The elapsed time is
  a difference of two values of \<^verbatim>\<open>Date.now()\<close>, an integer far below \<open>2 ^ 53\<close>.)
\<close>

definition scoreInSeconds :: "int \<Rightarrow> jsnum" where
  "scoreInSeconds ms = toDouble (of_int ms / 1000)"

text \<open>
  \<^verbatim>\<open>handleSaveScore\<close> is an async function that looks the pair up and then writes:
  \<^verbatim>\<open>
  const q = query(scoresColRef, where("eventId", "==", selectedEvent),
                                where("participantId", "==", selectedParticipant));
  const existingScores = await getDocs(q);
  const scoreData = { ..., score: scoreInSeconds, timestamp: new Date() };
  if (existingScores.docs.length > 0) {
    await updateDoc(doc(db, ..., existingScores.docs[0].id), scoreData);
    setSaveMessage("Score updated successfully!");
  } else {
    await addDoc(scoresColRef, scoreData);
    setSaveMessage("Score saved successfully!");
  }
  \<close>
  It is suspended at \<^verbatim>\<open>await getDocs(q)\<close>, and the button that calls it stays enabled: other
  handlers, of this component or of another client, can run between the query and the
  write. \<open>saveQuery\<close> is the query and \<open>saveWrite\<close> is what the handler does once it has the
  answer, on the store as it is by then.
\<close>

definition saveQuery ::
  "env \<Rightarrow> stopwatch \<Rightarrow> world \<Rightarrow> store_error + (docid \<times> score_data) list" where
  "saveQuery en s w =
     getScoreDocs en
       (\<lambda>d. eventId d = selectedEvent s \<and> participantId d = selectedParticipant s) w"

definition saveWrite ::
  "env \<Rightarrow> stopwatch \<Rightarrow> (docid \<times> score_data) list \<Rightarrow> world \<Rightarrow> world \<times> stopwatch" where
  "saveWrite en s existingScores w =
     (let (now, w1) = newDate en w;
          scoreData = \<lparr>eventId = selectedEvent s, participantId = selectedParticipant s,
                       score = scoreInSeconds (elapsedTime s), timestamp = now\<rparr>
      in case existingScores of
           doc0 # others \<Rightarrow>
             (case updateScoreDoc en (fst doc0) scoreData w1 of
                Inl e \<Rightarrow> (w1, s\<lparr>saveMessage := Failure ''Failed to save score: '' e\<rparr>)
              | Inr w2 \<Rightarrow> (w2, s\<lparr>saveMessage := Message ''Score updated successfully!''\<rparr>))
         | [] \<Rightarrow>
             (case addScoreDoc en scoreData w1 of
                Inl e \<Rightarrow> (w1, s\<lparr>saveMessage := Failure ''Failed to save score: '' e\<rparr>)
              | Inr w2 \<Rightarrow> (w2, s\<lparr>saveMessage := Message ''Score saved successfully!''\<rparr>)))"

text \<open>
  The three tests at the start of the handler run before it is suspended. \<open>ready\<close> is
  \<^verbatim>\<open>db && isAuthReady\<close>. \<open>handleSaveScore\<close> is the whole handler when nothing else writes
  between its query and its write.
\<close>

definition handleSaveScore :: "env \<Rightarrow> bool \<Rightarrow> stopwatch \<Rightarrow> world \<Rightarrow> world \<times> stopwatch" where
  "handleSaveScore en ready s w =
     (if selectedEvent s = [] \<or> selectedParticipant s = [] then
        (w, s\<lparr>saveMessage := Message ''Please select both an event and a participant.''\<rparr>)
      else if elapsedTime s = 0 then
        (w, s\<lparr>saveMessage := Message ''Stopwatch time is 0. Please run the stopwatch first.''\<rparr>)
      else if \<not> ready then
        (w, s\<lparr>saveMessage := Message ''Database not ready. Please wait.''\<rparr>)
      else
        (case saveQuery en s w of
           Inl e \<Rightarrow> (w, s\<lparr>saveMessage := Failure ''Failed to save score: '' e\<rparr>)
         | Inr existingScores \<Rightarrow> saveWrite en s existingScores w))"

section \<open>The states of the score collection\<close>

text \<open>The pair a score document is for, and the invariant of the data model.\<close>

definition pairKey :: "docid \<times> score_data \<Rightarrow> docid \<times> docid" where
  "pairKey d = (eventId (snd d), participantId (snd d))"

definition atMostOnePerPair :: "(docid \<times> score_data) list \<Rightarrow> bool" where
  "atMostOnePerPair docs \<longleftrightarrow> distinct (map pairKey docs)"

text \<open>
  The view a form has of a pair is current when \<^verbatim>\<open>existingScores[participant.id]\<close> is the id
  of a document of the collection that is for the event and the participant, or is
  \<^verbatim>\<open>undefined\<close> and the collection has no document for them.
\<close>

definition upToDate ::
  "docid \<Rightarrow> (docid \<rightharpoonup> docid) \<Rightarrow> (docid \<times> score_data) list \<Rightarrow> docid \<Rightarrow> bool" where
  "upToDate ev existingScores docs pid \<longleftrightarrow>
     (case getProperty existingScores pid of
        Own sid \<Rightarrow> (sid, ev, pid) \<in> set (map (\<lambda>d. (fst d, pairKey d)) docs)
      | Inherited \<Rightarrow> False
      | Undefined \<Rightarrow> (ev, pid) \<notin> set (map pairKey docs))"

text \<open>
  The states of the store that arise from a store without scores when every write is
  decided on a current view of its pair: a pass of the loop of the score-entry form for a
  participant for which the form's \<^verbatim>\<open>existingScores\<close> is current, and a write of the
  stopwatch with the answer that its query has on the store written to. Deletions of
  score documents, which is what the cascades of \<^verbatim>\<open>handleDeleteEvent\<close> and
  \<^verbatim>\<open>handleDeleteParticipant\<close> issue one by one, and changes to the events and participants
  may come in between at any point.
\<close>

inductive orderly :: "world \<Rightarrow> bool" where
  no_scores: "scoreDocs w = [] \<Longrightarrow> orderly w"
| form_write:
    "orderly w \<Longrightarrow> upToDate ev existingScores (scoreDocs w) pid \<Longrightarrow>
     saveParticipantScore en ev scores existingScores pid w = Inr w' \<Longrightarrow> orderly w'"
| stopwatch_write:
    "orderly w \<Longrightarrow> saveQuery en s w = Inr existingScores \<Longrightarrow>
     orderly (fst (saveWrite en s existingScores w))"
| score_deleted: "orderly w \<Longrightarrow> deleteScoreDoc en sid w = Inr w' \<Longrightarrow> orderly w'"
| other_collections: "orderly w \<Longrightarrow> scoreDocs w' = scoreDocs w \<Longrightarrow> orderly w'"

section \<open>Example data\<close>

text \<open>
  A backend that rejects nothing, and a store with one event, two participants and one
  score; the concrete instances of the theorems below are taken on them.
\<close>

definition demoEnv :: env where
  "demoEnv =
     \<lparr>denied = (\<lambda>op. False), dateAt = (\<lambda>n. 1000 + int n),
      idAt = (\<lambda>n. ''auto'' @ replicate n (CHR ''x''))\<rparr>"

definition demoWorld :: world where
  "demoWorld =
     \<lparr>eventDocs = [(''E1'', \<lparr>eventName = ''Sprint'', eventType = ''Track''\<rparr>)],
      participantDocs =
        [(''P1'', \<lparr>name = ''Alice'', house = ''Red''\<rparr>),
         (''P2'', \<lparr>name = ''Bob'', house = ''Blue''\<rparr>)],
      scoreDocs =
        [(''s1'', \<lparr>eventId = ''E1'', participantId = ''P1'', score = Num 10, timestamp = 900\<rparr>)],
      calls = 0\<rparr>"

section \<open>The input filter matches the unsigned decimal pattern\<close>

lemma nullable_iff: "nullable r \<longleftrightarrow> [] \<in> lang r"
  by (induction r) (auto intro: star.star_empty)

lemma star_cons:
  "c # w \<in> star A \<longleftrightarrow> (\<exists>u v. c # u \<in> A \<and> v \<in> star A \<and> w = u @ v)"
proof
  assume "c # w \<in> star A"
  then show "\<exists>u v. c # u \<in> A \<and> v \<in> star A \<and> w = u @ v"
  proof (induction "c # w" rule: star.induct)
    case (star_app u v)
    then show ?case by (cases u) auto
  qed
next
  assume "\<exists>u v. c # u \<in> A \<and> v \<in> star A \<and> w = u @ v"
  then obtain u v where "c # u \<in> A" "v \<in> star A" "w = u @ v" by blast
  then have "(c # u) @ v \<in> star A" by (intro star.star_app)
  with \<open>w = u @ v\<close> show "c # w \<in> star A" by simp
qed

lemma lang_Seq_Cons:
  "c # w \<in> lang (Seq r s) \<longleftrightarrow>
     (\<exists>u v. w = u @ v \<and> c # u \<in> lang r \<and> v \<in> lang s) \<or> ([] \<in> lang r \<and> c # w \<in> lang s)"
proof
  assume "c # w \<in> lang (Seq r s)"
  then obtain u v where uv: "c # w = u @ v" "u \<in> lang r" "v \<in> lang s" by auto
  show "(\<exists>u v. w = u @ v \<and> c # u \<in> lang r \<and> v \<in> lang s) \<or> ([] \<in> lang r \<and> c # w \<in> lang s)"
  proof (cases u)
    case Nil
    with uv show ?thesis by simp
  next
    case (Cons a u')
    with uv have "w = u' @ v" "c # u' \<in> lang r" by simp_all
    with uv(3) show ?thesis by blast
  qed
next
  assume "(\<exists>u v. w = u @ v \<and> c # u \<in> lang r \<and> v \<in> lang s) \<or> ([] \<in> lang r \<and> c # w \<in> lang s)"
  then show "c # w \<in> lang (Seq r s)"
  proof
    assume "\<exists>u v. w = u @ v \<and> c # u \<in> lang r \<and> v \<in> lang s"
    then obtain u v where "w = u @ v" "c # u \<in> lang r" "v \<in> lang s" by blast
    then have "c # w = (c # u) @ v \<and> c # u \<in> lang r \<and> v \<in> lang s" by simp
    then show ?thesis unfolding lang.simps by blast
  next
    assume "[] \<in> lang r \<and> c # w \<in> lang s"
    then have "c # w = [] @ (c # w) \<and> [] \<in> lang r \<and> c # w \<in> lang s" by simp
    then show ?thesis unfolding lang.simps by blast
  qed
qed

lemma lang_deriv: "lang (deriv c r) = {w. c # w \<in> lang r}"
proof (induction r)
  case (Seq r s)
  have "w \<in> lang (deriv c (Seq r s)) \<longleftrightarrow> c # w \<in> lang (Seq r s)" for w
    unfolding lang_Seq_Cons using Seq by (auto simp: nullable_iff)
  then show ?case by blast
next
  case (Star r)
  then show ?case by (auto simp: star_cons)
qed auto

lemma regexTest_lang: "regexTest r v \<longleftrightarrow> v \<in> lang r"
  by (induction v arbitrary: r) (simp_all add: nullable_iff lang_deriv)

lemma star_Digit: "star (lang Digit) = {ds. \<forall>c \<in> set ds. isDigit c}"
proof (intro set_eqI iffI)
  fix ds assume "ds \<in> star (lang Digit)"
  then show "ds \<in> {ds. \<forall>c \<in> set ds. isDigit c}"
    by (induction rule: star.induct) auto
next
  fix ds assume "ds \<in> {ds. \<forall>c \<in> set ds. isDigit c}"
  then have "\<forall>c \<in> set ds. isDigit c" by simp
  then show "ds \<in> star (lang Digit)"
  proof (induction ds)
    case Nil
    show ?case by (rule star.star_empty)
  next
    case (Cons c ds)
    then have "[c] \<in> lang Digit" "ds \<in> star (lang Digit)" by simp_all
    then have "[c] @ ds \<in> star (lang Digit)" by (rule star.star_app)
    then show ?case by simp
  qed
qed

lemma lang_Star_Digit: "lang (Star Digit) = {ds. \<forall>c \<in> set ds. isDigit c}"
  using star_Digit by simp

lemma lang_Seq_iff: "v \<in> lang (Seq r s) \<longleftrightarrow> (\<exists>a t. v = a @ t \<and> a \<in> lang r \<and> t \<in> lang s)"
  by auto

lemma lang_Opt_Lit: "u \<in> lang (Opt (Lit d)) \<longleftrightarrow> u = [d] \<or> u = []"
  by (auto simp: Opt_def)

lemma lang_scoreRegex:
  "v \<in> lang scoreRegex \<longleftrightarrow>
     (\<exists>a b. (\<forall>c \<in> set a. isDigit c) \<and> (\<forall>c \<in> set b. isDigit c) \<and>
            (v = a @ b \<or> v = a @ CHR ''.'' # b))"
proof -
  have "v \<in> lang scoreRegex \<longleftrightarrow>
      (\<exists>a t. v = a @ t \<and> a \<in> lang (Star Digit) \<and>
         (\<exists>u b. t = u @ b \<and> (u = [CHR ''.''] \<or> u = []) \<and> b \<in> lang (Star Digit)))"
    unfolding scoreRegex_def lang_Seq_iff lang_Opt_Lit ..
  also have "\<dots> \<longleftrightarrow> (\<exists>a b. (\<forall>c \<in> set a. isDigit c) \<and> (\<forall>c \<in> set b. isDigit c) \<and>
            (v = a @ b \<or> v = a @ CHR ''.'' # b))"
    unfolding lang_Star_Digit mem_Collect_eq
  proof (intro iffI)
    assume "\<exists>a t. v = a @ t \<and> (\<forall>c\<in>set a. isDigit c) \<and>
       (\<exists>u b. t = u @ b \<and> (u = [CHR ''.''] \<or> u = []) \<and> (\<forall>c\<in>set b. isDigit c))"
    then obtain a u b where "v = a @ u @ b" "\<forall>c\<in>set a. isDigit c" "u = [CHR ''.''] \<or> u = []"
        "\<forall>c\<in>set b. isDigit c"
      by blast
    then have "(\<forall>c \<in> set a. isDigit c) \<and> (\<forall>c \<in> set b. isDigit c) \<and>
            (v = a @ b \<or> v = a @ CHR ''.'' # b)"
      by auto
    then show "\<exists>a b. (\<forall>c \<in> set a. isDigit c) \<and> (\<forall>c \<in> set b. isDigit c) \<and>
            (v = a @ b \<or> v = a @ CHR ''.'' # b)"
      by blast
  next
    assume "\<exists>a b. (\<forall>c \<in> set a. isDigit c) \<and> (\<forall>c \<in> set b. isDigit c) \<and>
            (v = a @ b \<or> v = a @ CHR ''.'' # b)"
    then obtain a b where ab: "\<forall>c \<in> set a. isDigit c" "\<forall>c \<in> set b. isDigit c"
        "v = a @ b \<or> v = a @ CHR ''.'' # b"
      by blast
    from ab(3) obtain u where "v = a @ u @ b" "u = [CHR ''.''] \<or> u = []"
      by auto
    with ab(1,2) show "\<exists>a t. v = a @ t \<and> (\<forall>c\<in>set a. isDigit c) \<and>
       (\<exists>u b. t = u @ b \<and> (u = [CHR ''.''] \<or> u = []) \<and> (\<forall>c\<in>set b. isDigit c))"
      by blast
  qed
  finally show ?thesis .
qed

lemma not_isDigit_dot: "\<not> isDigit (CHR ''.'')"
  by (simp add: isDigit_def)

lemma unsignedDecimal_lang: "unsignedDecimal v \<longleftrightarrow> v \<in> lang scoreRegex"
proof
  assume u: "unsignedDecimal v"
  show "v \<in> lang scoreRegex"
  proof (cases "CHR ''.'' \<in> set v")
    case False
    with u have "\<forall>c \<in> set v. isDigit c" by (auto simp: unsignedDecimal_def)
    then have "(\<forall>c \<in> set v. isDigit c) \<and> (\<forall>c \<in> set ([]::string). isDigit c) \<and> v = v @ []"
      by simp
    then show ?thesis unfolding lang_scoreRegex by blast
  next
    case True
    then obtain a b where ab: "v = a @ CHR ''.'' # b" "CHR ''.'' \<notin> set a"
      by (auto dest: split_list_first)
    from u ab have "CHR ''.'' \<notin> set b"
      by (auto simp: unsignedDecimal_def filter_empty_conv)
    with u ab have "(\<forall>c \<in> set a. isDigit c) \<and> (\<forall>c \<in> set b. isDigit c)"
      by (auto simp: unsignedDecimal_def)
    with ab(1) show ?thesis unfolding lang_scoreRegex by blast
  qed
next
  assume "v \<in> lang scoreRegex"
  then obtain a b where ab: "\<forall>c \<in> set a. isDigit c" "\<forall>c \<in> set b. isDigit c"
      "v = a @ b \<or> v = a @ CHR ''.'' # b"
    unfolding lang_scoreRegex by blast
  have "filter (\<lambda>c. c = CHR ''.'') a = []" "filter (\<lambda>c. c = CHR ''.'') b = []"
    using ab(1,2) not_isDigit_dot by (auto simp: filter_empty_conv)
  with ab show "unsignedDecimal v"
    by (auto simp: unsignedDecimal_def)
qed

text \<open>
  Claim C6. The score-input filter accepts exactly the candidates that match the unsigned
  decimal pattern (digits with at most one decimal point, the empty string among them):
  it stores an accepted candidate in the \<^verbatim>\<open>scores\<close> state and leaves the state as it is
  for any other. \<^verbatim>\<open>"12.5"\<close>, \<^verbatim>\<open>"0"\<close> and \<^verbatim>\<open>""\<close> are accepted, \<^verbatim>\<open>"abc"\<close> and
  \<^verbatim>\<open>"1.2.3"\<close> are rejected. The filter has no access to the store: the only thing it
  returns is the \<^verbatim>\<open>scores\<close> state.
\<close>

theorem score_filter_accepts_unsigned_decimal:
  "handleScoreChange scores pid v =
     (if unsignedDecimal v then scores(pid \<mapsto> Typed v) else scores) \<and>
   handleScoreChange scores pid ''12.5'' = scores(pid \<mapsto> Typed ''12.5'') \<and>
   handleScoreChange scores pid ''0'' = scores(pid \<mapsto> Typed ''0'') \<and>
   handleScoreChange scores pid [] = scores(pid \<mapsto> Typed []) \<and>
   handleScoreChange scores pid ''abc'' = scores \<and>
   handleScoreChange scores pid ''1.2.3'' = scores"
proof -
  have "unsignedDecimal []" by (simp add: unsignedDecimal_def)
  then have a: "handleScoreChange scores pid v =
     (if unsignedDecimal v then scores(pid \<mapsto> Typed v) else scores)"
    by (auto simp: handleScoreChange_def regexTest_lang unsignedDecimal_lang)
  have b: "handleScoreChange scores pid ''12.5'' = scores(pid \<mapsto> Typed ''12.5'')"
    "handleScoreChange scores pid ''0'' = scores(pid \<mapsto> Typed ''0'')"
    "handleScoreChange scores pid [] = scores(pid \<mapsto> Typed [])"
    by (simp_all add: handleScoreChange_def scoreRegex_def Opt_def isDigit_def)
  have c: "handleScoreChange scores pid ''abc'' = scores"
     "handleScoreChange scores pid ''1.2.3'' = scores"
    by (simp_all add: handleScoreChange_def scoreRegex_def Opt_def isDigit_def)
  from a b c show ?thesis by blast
qed

theorem score_filter_accepts_unsigned_decimal_witness:
  "unsignedDecimal ''12.5'' \<and>
   handleScoreChange Map.empty ''P1'' ''12.5'' ''P1'' = Some (Typed ''12.5'') \<and>
   \<not> unsignedDecimal ''1.2.3'' \<and>
   handleScoreChange (Map.empty(''P1'' \<mapsto> Typed ''1.2'')) ''P1'' ''1.2.3'' ''P1'' =
     Some (Typed ''1.2'')"
  using score_filter_accepts_unsigned_decimal [of Map.empty "''P1''" "''12.5''"]
    score_filter_accepts_unsigned_decimal
      [of "Map.empty(''P1'' \<mapsto> Typed ''1.2'')" "''P1''" "''1.2.3''"]
  by (simp add: unsignedDecimal_def isDigit_def)

text \<open>
  The pattern is the one of an input being typed: it also admits a number without digits
  on one side of the point, and the point alone, which \<^verbatim>\<open>parseFloat\<close> reads as \<^verbatim>\<open>NaN\<close>.
\<close>

lemma point_alone_is_accepted:
  "handleScoreChange scores pid ''.'' = scores(pid \<mapsto> Typed ''.'') \<and> parseFloat ''.'' = NaN"
  by (simp add: handleScoreChange_def scoreRegex_def Opt_def isDigit_def parseFloat_def)

section \<open>Rounding to a double\<close>

lemma roundHalfEven_pos: "1 \<le> y \<Longrightarrow> 1 \<le> roundHalfEven y"
proof -
  assume "1 \<le> y"
  then have "1 \<le> \<lfloor>y\<rfloor>" by simp
  moreover have "\<lfloor>y\<rfloor> \<le> roundHalfEven y" by (simp add: roundHalfEven_def Let_def)
  ultimately show ?thesis by linarith
qed

lemma roundHalfEven_of_int: "roundHalfEven (of_int n) = n"
  by (simp add: roundHalfEven_def)

lemma powi_grid: "- 1074 \<le> t \<Longrightarrow> (2::rat) powi t * 2 ^ 1074 = 2 ^ nat (t + 1074)"
proof -
  assume t: "- 1074 \<le> t"
  have "(2::rat) powi t * 2 ^ 1074 = 2 powi t * 2 powi 1074" by simp
  also have "\<dots> = 2 powi (t + 1074)" by (simp add: power_int_add)
  also have "\<dots> = 2 ^ nat (t + 1074)" using t by (simp add: power_int_def)
  finally show ?thesis .
qed

lemma onGrid_round: "- 1074 \<le> t \<Longrightarrow> onGrid (of_int m * 2 powi t)"
proof -
  assume t: "- 1074 \<le> t"
  have "of_int m * 2 powi t * 2 ^ 1074 = (of_int m :: rat) * (2 powi t * 2 ^ 1074)" by simp
  also have "\<dots> = of_int m * 2 ^ nat (t + 1074)" by (simp only: powi_grid [OF t])
  also have "\<dots> = of_int (m * 2 ^ nat (t + 1074))" by simp
  finally show ?thesis unfolding onGrid_def by (metis Ints_of_int)
qed

lemma onGrid_minus: "onGrid x \<Longrightarrow> onGrid (- x)"
  by (simp add: onGrid_def)

lemma onGrid_zero: "onGrid 0"
  by (simp add: onGrid_def)

lemma onGrid_diff: "onGrid a \<Longrightarrow> onGrid b \<Longrightarrow> onGrid (b - a)"
  unfolding onGrid_def by (simp add: left_diff_distrib)

text \<open>What rounding returns is a multiple of \<open>2 ^ (- 1074)\<close>, and never \<^verbatim>\<open>NaN\<close>.\<close>

lemma onGrid_toDouble: "toDouble x = Num y \<Longrightarrow> onGrid y"
  unfolding toDouble_def Let_def
  by (auto simp: onGrid_zero onGrid_round onGrid_minus split: if_splits)

lemma toDouble_not_NaN: "toDouble x \<noteq> NaN"
  by (simp add: toDouble_def Let_def)

lemma onGrid_least: "onGrid x \<Longrightarrow> 0 < x \<Longrightarrow> 1 \<le> x * 2 ^ 1074"
proof -
  assume "onGrid x" "0 < x"
  then obtain n :: int where n: "x * 2 ^ 1074 = of_int n"
    unfolding onGrid_def by (auto elim: Ints_cases)
  from \<open>0 < x\<close> have "0 < x * 2 ^ 1074" by simp
  with n have "0 < n" by simp
  then have "1 \<le> n" by simp
  then have "(1::rat) \<le> of_int n" by simp
  with n show ?thesis by simp
qed

lemma exponent_le:
  assumes "0 < x"
  shows "2 powi (exponent x) \<le> x"
proof -
  obtain p q where pq: "quotient_of x = (p, q)" by (cases "quotient_of x")
  then have q: "0 < q" and x: "x = of_int p / of_int q"
    using quotient_of_denom_pos quotient_of_div by blast+
  from assms x q have p: "0 < p" by (simp add: zero_less_divide_iff)
  let ?k = "bitlen p - bitlen q"
  show ?thesis
  proof (cases "2 powi ?k \<le> x")
    case True
    then show ?thesis by (simp add: exponent_def pq)
  next
    case False
    from bitlen_bounds [OF p] have "2 ^ nat (bitlen p - 1) \<le> p" by simp
    then have lo: "(2::rat) ^ nat (bitlen p - 1) \<le> of_int p"
      by (metis of_int_le_iff of_int_numeral of_int_power)
    from bitlen_bounds [OF q] have "q < 2 ^ nat (bitlen q)" by simp
    then have hi: "of_int q \<le> (2::rat) ^ nat (bitlen q)"
      by (metis less_imp_le of_int_le_iff of_int_numeral of_int_power)
    from p have bp: "1 \<le> bitlen p" by (simp add: bitlen_alt_def)
    have bq: "0 \<le> bitlen q" by (rule bitlen_nonneg)
    have "(2::rat) powi (?k - 1) = 2 powi (bitlen p - 1) / 2 powi (bitlen q)"
      by (simp add: power_int_diff)
    also have "\<dots> = 2 ^ nat (bitlen p - 1) / 2 ^ nat (bitlen q)"
      using bp bq by (simp add: power_int_def)
    also have "\<dots> \<le> of_int p / of_int q"
      using lo hi q p by (intro frac_le) simp_all
    finally have "2 powi (?k - 1) \<le> x" using x by simp
    with False show ?thesis by (simp add: exponent_def pq)
  qed
qed

text \<open>A number of magnitude \<open>2 ^ (- 1074)\<close> or more is not rounded to \<^verbatim>\<open>0\<close>.\<close>

lemma toDouble_pos:
  assumes "0 < x" "1 \<le> x * 2 ^ 1074"
  shows "toDouble x = PInf \<or> (\<exists>v. toDouble x = Num v \<and> 0 < v)"
proof -
  let ?t = "max (exponent x - 52) (- 1074)"
  have pos: "(0::rat) < 2 powi ?t" by simp
  have "2 powi ?t \<le> x"
  proof (cases "exponent x - 52 \<le> - 1074")
    case True
    then have t: "?t = - 1074" by simp
    have "(2::rat) powi (- 1074) = 1 / 2 ^ 1074" by (simp add: power_int_def divide_simps)
    with assms(2) show ?thesis unfolding t by (simp add: divide_simps mult.commute)
  next
    case False
    then have t: "?t = exponent x - 52" by simp
    have "(2::rat) powi (exponent x - 52) \<le> 2 powi (exponent x)"
      by (rule power_int_increasing) simp_all
    with exponent_le [OF assms(1)] show ?thesis unfolding t by simp
  qed
  with pos have "1 \<le> x / 2 powi ?t" by (simp add: divide_simps)
  then have "1 \<le> roundHalfEven (x / 2 powi ?t)" by (rule roundHalfEven_pos)
  then have "(0::rat) < of_int (roundHalfEven (x / 2 powi ?t))" by simp
  with pos have "(0::rat) < of_int (roundHalfEven (x / 2 powi ?t)) * 2 powi ?t"
    by (intro mult_pos_pos)
  with assms(1) show ?thesis
    by (simp add: toDouble_def Let_def)
qed

lemma toDouble_neg:
  assumes "x < 0" "1 \<le> - x * 2 ^ 1074"
  shows "toDouble x = NInf \<or> (\<exists>v. toDouble x = Num v \<and> v < 0)"
proof -
  from assms have "0 < - x" "1 \<le> (- x) * 2 ^ 1074" by simp_all
  from toDouble_pos [OF this] assms(1) show ?thesis
    by (auto simp: toDouble_def Let_def split: if_splits)
qed

text \<open>
  The difference of two doubles has the sign of their exact difference: the doubles are
  multiples of \<open>2 ^ (- 1074)\<close>, so a difference that is not \<open>0\<close> is too large to be rounded
  to \<open>0\<close>.
\<close>

lemma cmpSign_toDouble:
  assumes "onGrid d"
  shows "cmpSign (toDouble d) = (if d < 0 then - 1 else if d = 0 then 0 else 1)"
proof -
  consider "d = 0" | "0 < d" | "d < 0" by linarith
  then show ?thesis
  proof cases
    case 1
    then show ?thesis by (simp add: toDouble_def)
  next
    case 2
    from toDouble_pos [OF 2 onGrid_least [OF assms 2]] 2 show ?thesis by auto
  next
    case 3
    then have "0 < - d" by simp
    from onGrid_least [OF onGrid_minus [OF assms] this] have "1 \<le> - d * 2 ^ 1074" by simp
    from toDouble_neg [OF 3 this] 3 show ?thesis by auto
  qed
qed

lemma cmpSign_sub_Num:
  assumes "onGrid a" "onGrid b"
  shows "cmpSign (js_sub (Num b) (Num a)) = (if b < a then - 1 else if b = a then 0 else 1)"
proof -
  from assms have "onGrid (b - a)" by (rule onGrid_diff)
  from cmpSign_toDouble [OF this] show ?thesis by simp
qed

lemma isNumber_onGrid: "isNumber x \<Longrightarrow> onGridNumber x"
  by (cases x) (simp_all add: onGrid_toDouble)

lemma toDouble_onGridNumber: "onGridNumber (toDouble x)"
  by (cases "toDouble x") (simp_all add: onGrid_toDouble)

lemma js_add_onGridNumber: "onGridNumber (js_add a b)"
  by (cases a; cases b) (simp_all add: toDouble_onGridNumber)

text \<open>The integers below \<open>2 ^ 53\<close> in magnitude are doubles.\<close>

lemma toDouble_of_int:
  assumes "\<bar>n\<bar> < 2 ^ 53"
  shows "toDouble (of_int n) = Num (of_int n)"
proof (cases "n = 0")
  case True
  then show ?thesis by (simp add: toDouble_def)
next
  case False
  define a :: rat where "a = \<bar>of_int n\<bar>"
  define t where "t = max (exponent a - 52) (- 1074)"
  from False have a: "0 < a" by (simp add: a_def)
  have a_int: "a = of_int \<bar>n\<bar>" by (simp add: a_def)
  from assms have "(of_int \<bar>n\<bar> :: rat) < of_int (2 ^ 53)" by (simp only: of_int_less_iff)
  then have a53: "a < 2 powi 53" by (simp add: a_int)
  have "exponent a < 53"
  proof (rule ccontr)
    assume "\<not> exponent a < 53"
    then have "(2::rat) powi 53 \<le> 2 powi (exponent a)"
      by (intro power_int_increasing) simp_all
    with exponent_le [OF a] a53 show False by simp
  qed
  then have t: "t \<le> 0" "- 1074 \<le> t" by (simp_all add: t_def)
  have scale: "(1::rat) / 2 powi t = of_int (2 ^ nat (- t))"
  proof -
    have "(1::rat) / 2 powi t = 2 powi (- t)" by (simp add: power_int_minus divide_simps)
    also have "\<dots> = 2 ^ nat (- t)" using t(1) by (simp add: power_int_def)
    finally show ?thesis by simp
  qed
  have "a / 2 powi t = a * (1 / 2 powi t)" by simp
  also have "\<dots> = of_int (\<bar>n\<bar> * 2 ^ nat (- t))" by (simp only: scale a_int of_int_mult)
  finally have "roundHalfEven (a / 2 powi t) = \<bar>n\<bar> * 2 ^ nat (- t)"
    by (simp only: roundHalfEven_of_int)
  then have "of_int (roundHalfEven (a / 2 powi t)) * 2 powi t =
      a * (of_int (2 ^ nat (- t)) * 2 powi t)"
    by (simp add: a_int)
  also have "(of_int (2 ^ nat (- t)) :: rat) * 2 powi t = 1"
    unfolding scale [symmetric] by simp
  finally have v: "of_int (roundHalfEven (a / 2 powi t)) * 2 powi t = a" by simp
  have small: "\<not> (2::rat) ^ 1024 \<le> a"
  proof -
    have "(2::rat) powi 53 \<le> 2 powi 1024" by (intro power_int_increasing) simp_all
    with a53 show ?thesis by simp
  qed
  have "toDouble (of_int n) = Num (if 0 < (of_int n :: rat) then a else - a)"
    unfolding toDouble_def Let_def a_def [symmetric] t_def [symmetric] v
    using False small by simp
  also have "(if 0 < (of_int n :: rat) then a else - a) = of_int n"
    using False by (simp add: a_def)
  finally show ?thesis .
qed

lemma toDouble_numeral:
  "numeral k < (2::int) ^ 53 \<Longrightarrow> toDouble (numeral k) = Num (numeral k)"
  using toDouble_of_int [of "numeral k"] by simp

lemma toDouble_neg_numeral:
  "numeral k < (2::int) ^ 53 \<Longrightarrow> toDouble (- numeral k) = Num (- numeral k)"
  using toDouble_of_int [of "- numeral k"] by simp

lemma toDouble_zero: "toDouble 0 = Num 0"
  by (simp add: toDouble_def)

lemma toDouble_one: "toDouble 1 = Num 1"
  using toDouble_of_int [of 1] by simp

lemmas toDouble_integer = toDouble_zero toDouble_one toDouble_numeral toDouble_neg_numeral

section \<open>Sorting with a difference comparator\<close>

text \<open>
  On numbers that are not \<^verbatim>\<open>NaN\<close> the comparator \<^verbatim>\<open>(a, b) => key(b) - key(a)\<close> orders as
  the descending order of the keys does, so it is consistent, and the sort is the stable
  sort by that order.
\<close>

lemma cmpSign_difference:
  assumes "onGridNumber x" "x \<noteq> NaN" "onGridNumber y" "y \<noteq> NaN"
  shows "cmpSign (js_sub y x) =
     (if descendingKey x < descendingKey y then - 1
      else if descendingKey x = descendingKey y then 0 else 1)"
proof (cases x)
  case (Num a)
  show ?thesis
  proof (cases y)
    case (Num b)
    with \<open>x = Num a\<close> assms cmpSign_sub_Num [of a b] show ?thesis by auto
  qed (use Num assms in simp_all)
qed (use assms in \<open>cases y; simp\<close>)+

lemma descendingKey_inject:
  "x \<noteq> NaN \<Longrightarrow> y \<noteq> NaN \<Longrightarrow> descendingKey x = descendingKey y \<longleftrightarrow> x = y"
  by (cases x; cases y) simp_all

lemma js_le_descendingKey:
  "x \<noteq> NaN \<Longrightarrow> y \<noteq> NaN \<Longrightarrow> js_le y x \<longleftrightarrow> descendingKey x \<le> descendingKey y"
  by (cases x; cases y) simp_all

lemma consistent_difference:
  assumes cmp: "\<And>a b. cmp a b = js_sub (k b) (k a)"
    and num: "\<forall>x \<in> set xs. onGridNumber (k x) \<and> k x \<noteq> NaN"
  shows "consistentComparator cmp xs"
proof -
  have s: "cmpSign (cmp a b) =
     (if descendingKey (k a) < descendingKey (k b) then - 1
      else if descendingKey (k a) = descendingKey (k b) then 0 else 1)"
    if "a \<in> set xs" "b \<in> set xs" for a b
    using that num by (simp add: cmp cmpSign_difference)
  have zero: "cmpSign (cmp a b) = 0 \<longleftrightarrow> descendingKey (k a) = descendingKey (k b)"
    if "a \<in> set xs" "b \<in> set xs" for a b
    by (simp add: s [OF that])
  have neg: "cmpSign (cmp a b) < 0 \<longleftrightarrow> descendingKey (k a) < descendingKey (k b)"
    if "a \<in> set xs" "b \<in> set xs" for a b
    by (simp add: s [OF that])
  have pos: "0 < cmpSign (cmp a b) \<longleftrightarrow> descendingKey (k b) < descendingKey (k a)"
    if "a \<in> set xs" "b \<in> set xs" for a b
    by (auto simp: s [OF that])
  show ?thesis
    unfolding consistentComparator_def list_all_iff
    by (intro conjI ballI impI; (simp add: zero neg pos; fail)?)
       (auto simp: zero neg pos)
qed

lemma insertBy_insort_key:
  assumes cmp: "\<And>a b. cmp a b = js_sub (k b) (k a)"
    and x: "onGridNumber (k x)" "k x \<noteq> NaN"
    and ys: "\<forall>y \<in> set ys. onGridNumber (k y) \<and> k y \<noteq> NaN"
  shows "insertBy cmp x ys = insort_key (\<lambda>z. descendingKey (k z)) x ys"
  using ys
proof (induction ys)
  case Nil
  show ?case by simp
next
  case (Cons y ys)
  from Cons.prems have y: "onGridNumber (k y)" "k y \<noteq> NaN" by simp_all
  have "cmpSign (cmp x y) \<le> 0 \<longleftrightarrow> descendingKey (k x) \<le> descendingKey (k y)"
    using cmpSign_difference [OF x y] by (auto simp: cmp)
  with Cons show ?case by simp
qed

lemma insertion_sort_key:
  assumes cmp: "\<And>a b. cmp a b = js_sub (k b) (k a)"
    and num: "\<forall>x \<in> set xs. onGridNumber (k x) \<and> k x \<noteq> NaN"
  shows "foldr (insertBy cmp) xs [] = sort_key (\<lambda>z. descendingKey (k z)) xs"
  using num
proof (induction xs)
  case Nil
  show ?case by simp
next
  case (Cons x xs)
  then have ih: "foldr (insertBy cmp) xs [] = sort_key (\<lambda>z. descendingKey (k z)) xs" by simp
  from Cons.prems have x: "onGridNumber (k x)" "k x \<noteq> NaN"
    and rest: "\<forall>y \<in> set (sort_key (\<lambda>z. descendingKey (k z)) xs). onGridNumber (k y) \<and> k y \<noteq> NaN"
    by simp_all
  have "foldr (insertBy cmp) (x # xs) [] = insertBy cmp x (foldr (insertBy cmp) xs [])"
    by simp
  also have "\<dots> = insort_key (\<lambda>z. descendingKey (k z)) x (sort_key (\<lambda>z. descendingKey (k z)) xs)"
    unfolding ih by (rule insertBy_insort_key [OF cmp x rest])
  finally show ?case by (simp add: sort_key_def)
qed

lemma sortBy_sort_key:
  assumes "\<And>a b. cmp a b = js_sub (k b) (k a)"
    and "\<forall>x \<in> set xs. onGridNumber (k x) \<and> k x \<noteq> NaN"
  shows "sortBy cmp xs = Some (sort_key (\<lambda>z. descendingKey (k z)) xs)"
  by (simp add: sortBy_def consistent_difference [OF assms] insertion_sort_key [OF assms])

lemma sort_key_descending:
  assumes "\<forall>x \<in> set xs. k x \<noteq> NaN"
  shows "sorted_wrt (\<lambda>a b. js_le (k b) (k a)) (sort_key (\<lambda>z. descendingKey (k z)) xs)"
proof -
  let ?f = "\<lambda>z. descendingKey (k z)"
  have "sorted (map ?f (sort_key ?f xs))" by (rule sorted_sort_key)
  then have "sorted_wrt (\<lambda>a b. ?f a \<le> ?f b) (sort_key ?f xs)"
    by (simp add: sorted_map)
  then show ?thesis
  proof (rule sorted_wrt_mono_rel [rotated])
    fix a b assume "a \<in> set (sort_key ?f xs)" "b \<in> set (sort_key ?f xs)" "?f a \<le> ?f b"
    with assms show "js_le (k b) (k a)" by (simp add: js_le_descendingKey)
  qed
qed

lemma sort_key_keeps_ties:
  assumes "\<forall>x \<in> set xs. k x \<noteq> NaN"
  shows "filter (\<lambda>x. k x = v) (sort_key (\<lambda>z. descendingKey (k z)) xs) = filter (\<lambda>x. k x = v) xs"
proof (cases "\<exists>x \<in> set xs. k x = v")
  case False
  then have "filter (\<lambda>x. k x = v) xs = []"
    and "filter (\<lambda>x. k x = v) (sort_key (\<lambda>z. descendingKey (k z)) xs) = []"
    by (simp_all add: filter_empty_conv)
  then show ?thesis by simp
next
  case True
  with assms have v: "v \<noteq> NaN" by auto
  let ?f = "\<lambda>z. descendingKey (k z)"
  have eq: "x \<in> set xs \<Longrightarrow> (k x = v) = (?f x = descendingKey v)" for x
    using assms v by (simp add: descendingKey_inject)
  have "filter (\<lambda>x. k x = v) (sort_key ?f xs) = filter (\<lambda>x. ?f x = descendingKey v) (sort_key ?f xs)"
    by (rule filter_cong) (simp_all add: eq)
  also have "\<dots> = filter (\<lambda>x. ?f x = descendingKey v) xs" by (rule sort_key_stable)
  also have "\<dots> = filter (\<lambda>x. k x = v) xs"
    by (rule filter_cong) (simp_all add: eq)
  finally show ?thesis .
qed


section \<open>The ranking of an event\<close>

text \<open>
  Claim C5, for scores that are not \<^verbatim>\<open>NaN\<close>. For every list of score documents of an event
  none of whose scores is \<^verbatim>\<open>NaN\<close>, the ranking is a rearrangement of the list, in
  descending order of score, in which the documents of equal score stand in the order they
  have in the list. For A with 10, B with 20 and C with 20, listed in this order, the
  ranking is B, C, A.
\<close>

theorem ranking_sorted_descending_stable:
  assumes "\<forall>d \<in> set scoresData. isNumber (score (snd d)) \<and> score (snd d) \<noteq> NaN"
  shows "\<exists>ranking. rankScores scoresData = Some ranking \<and>
         mset ranking = mset scoresData \<and>
         descendingByScore ranking \<and>
         (\<forall>v. filter (\<lambda>d. score (snd d) = v) ranking =
              filter (\<lambda>d. score (snd d) = v) scoresData)"
proof -
  let ?k = "\<lambda>d :: docid \<times> score_data. score (snd d)"
  let ?sorted = "sort_key (\<lambda>z. descendingKey (?k z)) scoresData"
  have cmp: "\<And>a b. byScore a b = js_sub (?k b) (?k a)"
    by (simp add: byScore_def)
  from assms have notNaN: "\<forall>d \<in> set scoresData. ?k d \<noteq> NaN" by simp
  from assms have num: "\<forall>d \<in> set scoresData. onGridNumber (?k d) \<and> ?k d \<noteq> NaN"
    by (simp add: isNumber_onGrid)
  have "rankScores scoresData = Some ?sorted"
    unfolding rankScores_def by (rule sortBy_sort_key [OF cmp num])
  moreover have "mset ?sorted = mset scoresData" by simp
  moreover have "descendingByScore ?sorted"
    unfolding descendingByScore_def by (rule sort_key_descending [OF notNaN])
  moreover have "\<forall>v. filter (\<lambda>d. ?k d = v) ?sorted = filter (\<lambda>d. ?k d = v) scoresData"
    using sort_key_keeps_ties [OF notNaN] by blast
  ultimately show ?thesis by blast
qed

theorem ranking_sorted_descending_stable_witness:
  "list_all (\<lambda>d. isNumber (score (snd d)) \<and> score (snd d) \<noteq> NaN)
      [(''A'', \<lparr>eventId = ''E1'', participantId = ''PA'', score = Num 10, timestamp = 1\<rparr>),
       (''B'', \<lparr>eventId = ''E1'', participantId = ''PB'', score = Num 20, timestamp = 2\<rparr>),
       (''C'', \<lparr>eventId = ''E1'', participantId = ''PC'', score = Num 20, timestamp = 3\<rparr>)] \<and>
   rankScores
      [(''A'', \<lparr>eventId = ''E1'', participantId = ''PA'', score = Num 10, timestamp = 1\<rparr>),
       (''B'', \<lparr>eventId = ''E1'', participantId = ''PB'', score = Num 20, timestamp = 2\<rparr>),
       (''C'', \<lparr>eventId = ''E1'', participantId = ''PC'', score = Num 20, timestamp = 3\<rparr>)]
     = Some
      [(''B'', \<lparr>eventId = ''E1'', participantId = ''PB'', score = Num 20, timestamp = 2\<rparr>),
       (''C'', \<lparr>eventId = ''E1'', participantId = ''PC'', score = Num 20, timestamp = 3\<rparr>),
       (''A'', \<lparr>eventId = ''E1'', participantId = ''PA'', score = Num 10, timestamp = 1\<rparr>)] \<and>
   descendingByScore
      [(''B'', \<lparr>eventId = ''E1'', participantId = ''PB'', score = Num 20, timestamp = 2\<rparr>),
       (''C'', \<lparr>eventId = ''E1'', participantId = ''PC'', score = Num 20, timestamp = 3\<rparr>),
       (''A'', \<lparr>eventId = ''E1'', participantId = ''PA'', score = Num 10, timestamp = 1\<rparr>)]"
proof -
  let ?input =
     "[(''A'', \<lparr>eventId = ''E1'', participantId = ''PA'', score = Num 10, timestamp = 1\<rparr>),
       (''B'', \<lparr>eventId = ''E1'', participantId = ''PB'', score = Num 20, timestamp = 2\<rparr>),
       (''C'', \<lparr>eventId = ''E1'', participantId = ''PC'', score = Num 20, timestamp = 3\<rparr>)]"
  let ?ranking =
     "[(''B'', \<lparr>eventId = ''E1'', participantId = ''PB'', score = Num 20, timestamp = 2\<rparr>),
       (''C'', \<lparr>eventId = ''E1'', participantId = ''PC'', score = Num 20, timestamp = 3\<rparr>),
       (''A'', \<lparr>eventId = ''E1'', participantId = ''PA'', score = Num 10, timestamp = 1\<rparr>)]"
  have numbers: "list_all (\<lambda>d. isNumber (score (snd d)) \<and> score (snd d) \<noteq> NaN) ?input"
    by (simp add: toDouble_integer)
  have result: "rankScores ?input = Some ?ranking"
    by (simp add: rankScores_def sortBy_def consistentComparator_def byScore_def
        toDouble_integer)
  from ranking_sorted_descending_stable [OF numbers [unfolded list_all_iff]]
  obtain ranking where "rankScores ?input = Some ranking" "descendingByScore ranking"
    by blast
  with result have "descendingByScore ?ranking" by simp
  with numbers result show ?thesis by (intro conjI)
qed

text \<open>
  The restriction is needed. The input filter accepts a point alone, which is saved as
  \<^verbatim>\<open>NaN\<close>, and a difference with \<^verbatim>\<open>NaN\<close> compares as equal to everything. A document with
  \<^verbatim>\<open>NaN\<close> listed before one with 10 stays before it, where \<^verbatim>\<open>NaN >= 10\<close> is false. With
  10, \<^verbatim>\<open>NaN\<close>, 20 the comparator is not consistent and the order is the engine's; no
  arrangement of the three is in descending order.
\<close>

theorem ranking_with_NaN_not_descending:
  "rankScores
      [(''A'', \<lparr>eventId = ''E1'', participantId = ''PA'', score = NaN, timestamp = 1\<rparr>),
       (''B'', \<lparr>eventId = ''E1'', participantId = ''PB'', score = Num 10, timestamp = 2\<rparr>)]
     = Some
      [(''A'', \<lparr>eventId = ''E1'', participantId = ''PA'', score = NaN, timestamp = 1\<rparr>),
       (''B'', \<lparr>eventId = ''E1'', participantId = ''PB'', score = Num 10, timestamp = 2\<rparr>)] \<and>
   \<not> descendingByScore
      [(''A'', \<lparr>eventId = ''E1'', participantId = ''PA'', score = NaN, timestamp = 1\<rparr>),
       (''B'', \<lparr>eventId = ''E1'', participantId = ''PB'', score = Num 10, timestamp = 2\<rparr>)]"
  by (simp add: rankScores_def sortBy_def consistentComparator_def byScore_def
      descendingByScore_def toDouble_integer)

lemma ranking_with_NaN_between:
  "rankScores
      [(''A'', \<lparr>eventId = ''E1'', participantId = ''PA'', score = Num 10, timestamp = 1\<rparr>),
       (''B'', \<lparr>eventId = ''E1'', participantId = ''PB'', score = NaN, timestamp = 2\<rparr>),
       (''C'', \<lparr>eventId = ''E1'', participantId = ''PC'', score = Num 20, timestamp = 3\<rparr>)]
     = None \<and>
   list_all (\<lambda>arrangement. \<not> descendingByScore arrangement)
     [[(''A'', \<lparr>eventId = ''E1'', participantId = ''PA'', score = Num 10, timestamp = 1\<rparr>),
       (''B'', \<lparr>eventId = ''E1'', participantId = ''PB'', score = NaN, timestamp = 2\<rparr>),
       (''C'', \<lparr>eventId = ''E1'', participantId = ''PC'', score = Num 20, timestamp = 3\<rparr>)],
      [(''A'', \<lparr>eventId = ''E1'', participantId = ''PA'', score = Num 10, timestamp = 1\<rparr>),
       (''C'', \<lparr>eventId = ''E1'', participantId = ''PC'', score = Num 20, timestamp = 3\<rparr>),
       (''B'', \<lparr>eventId = ''E1'', participantId = ''PB'', score = NaN, timestamp = 2\<rparr>)],
      [(''B'', \<lparr>eventId = ''E1'', participantId = ''PB'', score = NaN, timestamp = 2\<rparr>),
       (''A'', \<lparr>eventId = ''E1'', participantId = ''PA'', score = Num 10, timestamp = 1\<rparr>),
       (''C'', \<lparr>eventId = ''E1'', participantId = ''PC'', score = Num 20, timestamp = 3\<rparr>)],
      [(''B'', \<lparr>eventId = ''E1'', participantId = ''PB'', score = NaN, timestamp = 2\<rparr>),
       (''C'', \<lparr>eventId = ''E1'', participantId = ''PC'', score = Num 20, timestamp = 3\<rparr>),
       (''A'', \<lparr>eventId = ''E1'', participantId = ''PA'', score = Num 10, timestamp = 1\<rparr>)],
      [(''C'', \<lparr>eventId = ''E1'', participantId = ''PC'', score = Num 20, timestamp = 3\<rparr>),
       (''A'', \<lparr>eventId = ''E1'', participantId = ''PA'', score = Num 10, timestamp = 1\<rparr>),
       (''B'', \<lparr>eventId = ''E1'', participantId = ''PB'', score = NaN, timestamp = 2\<rparr>)],
      [(''C'', \<lparr>eventId = ''E1'', participantId = ''PC'', score = Num 20, timestamp = 3\<rparr>),
       (''B'', \<lparr>eventId = ''E1'', participantId = ''PB'', score = NaN, timestamp = 2\<rparr>),
       (''A'', \<lparr>eventId = ''E1'', participantId = ''PA'', score = Num 10, timestamp = 1\<rparr>)]]"
  by (simp add: rankScores_def sortBy_def consistentComparator_def byScore_def
      descendingByScore_def toDouble_integer)


section \<open>The overall standings\<close>

subsection \<open>Sums of finite numbers\<close>

lemma js_sum_snoc: "js_sum (xs @ [x]) = js_add (js_sum xs) x"
  by (simp add: js_sum_def)

lemma js_sum_onGridNumber: "onGridNumber (js_sum xs)"
  by (induction xs rule: rev_induct)
     (simp_all add: js_sum_snoc js_add_onGridNumber, simp add: js_sum_def onGrid_zero)

text \<open>
  A sum of finite numbers can overflow to an infinity, and then stays there; it is never
  \<^verbatim>\<open>NaN\<close>.
\<close>

lemma js_add_finite_not_NaN: "a \<noteq> NaN \<Longrightarrow> finite_num b \<Longrightarrow> js_add a b \<noteq> NaN"
  by (cases a; cases b) (simp_all add: toDouble_not_NaN)

lemma js_sum_not_NaN: "\<forall>x \<in> set xs. finite_num x \<Longrightarrow> js_sum xs \<noteq> NaN"
proof (induction xs rule: rev_induct)
  case Nil
  show ?case by (simp add: js_sum_def)
next
  case (snoc x xs)
  then show ?case by (simp add: js_sum_snoc js_add_finite_not_NaN)
qed

lemma js_add_zero: "finite_num b \<Longrightarrow> js_add (Num 0) b = b"
  by (cases b) simp_all

subsection \<open>The totals\<close>

lemma participantTotals_snoc:
  "participantTotals (xs @ [x]) = tally (participantTotals xs) x"
  by (simp add: participantTotals_def)

lemma tally_distinct: "distinct (map fst al) \<Longrightarrow> distinct (map fst (tally al s))"
  by (simp add: tally_def distinct_update split: property.splits)

lemma participantTotals_distinct: "distinct (map fst (participantTotals xs))"
  by (induction xs rule: rev_induct)
     (simp_all add: participantTotals_snoc tally_distinct, simp add: participantTotals_def)

text \<open>For an id that \<^verbatim>\<open>Object.prototype\<close> has no property for, the object is a map.\<close>

lemma getProperty_ordinary:
  "k \<notin> set objectPrototypeNames \<Longrightarrow>
     getProperty obj k = (case obj k of Some v \<Rightarrow> Own v | None \<Rightarrow> Undefined)"
  by (simp add: getProperty_def)

lemma tally_lookup:
  assumes "participantId x \<notin> set objectPrototypeNames"
  shows "map_of (tally al x) pid =
     (if pid = participantId x
      then (case map_of al (participantId x) of
              Some sofar \<Rightarrow>
                Some (if truthyTotal sofar then plusNumber sofar (score x) else Number (score x))
            | None \<Rightarrow> Some (Number (score x)))
      else map_of al pid)"
  by (simp add: tally_def getProperty_ordinary [OF assms] update_conv' split: option.splits)

text \<open>
  The total the loop leaves for a participant is the sum of the participant's scores, and
  there is an entry exactly for the participants that have a score. The branch taken for a
  total of \<^verbatim>\<open>0\<close> assigns the score, which is the sum as well.
\<close>

lemma participantTotals_lookup:
  assumes "\<forall>s \<in> set xs. finite_num (score s)"
    and "\<forall>s \<in> set xs. participantId s \<notin> set objectPrototypeNames"
  shows "map_of (participantTotals xs) pid =
     (if pid \<in> participantId ` set xs
      then Some (Number (js_sum (map score (filter (\<lambda>s. participantId s = pid) xs))))
      else None)"
  using assms
proof (induction xs arbitrary: pid rule: rev_induct)
  case Nil
  show ?case by (simp add: participantTotals_def)
next
  case (snoc x xs)
  from snoc.prems have fin: "\<forall>s \<in> set xs. finite_num (score s)"
    and ord: "\<forall>s \<in> set xs. participantId s \<notin> set objectPrototypeNames" by simp_all
  have ih: "map_of (participantTotals xs) q =
     (if q \<in> participantId ` set xs
      then Some (Number (js_sum (map score (filter (\<lambda>s. participantId s = q) xs))))
      else None)" for q
    using fin ord by (rule snoc.IH)
  from snoc.prems have x: "finite_num (score x)" "participantId x \<notin> set objectPrototypeNames"
    by simp_all
  note upd = tally_lookup [OF x(2), of "participantTotals xs" pid]
  show ?case
  proof (cases "pid = participantId x")
    case False
    with upd ih [of pid] show ?thesis
      by (simp add: participantTotals_snoc)
  next
    case True
    show ?thesis
    proof (cases "participantId x \<in> participantId ` set xs")
      case False
      then have "filter (\<lambda>s. participantId s = participantId x) xs = []"
        unfolding filter_empty_conv by (metis imageI)
      with False True upd ih [of "participantId x"] x(1) show ?thesis
        by (simp add: participantTotals_snoc js_sum_def js_add_zero)
    next
      case inx: True
      let ?old = "map score (filter (\<lambda>s. participantId s = participantId x) xs)"
      from fin have "\<forall>v \<in> set ?old. finite_num v" by simp
      then have nn: "js_sum ?old \<noteq> NaN" by (rule js_sum_not_NaN)
      have "(if truthyTotal (Number (js_sum ?old))
             then plusNumber (Number (js_sum ?old)) (score x) else Number (score x)) =
          Number (js_add (js_sum ?old) (score x))"
      proof (cases "truthy (js_sum ?old)")
        case True
        then show ?thesis by simp
      next
        case False
        with nn have "js_sum ?old = Num 0" by (cases "js_sum ?old") simp_all
        with x(1) show ?thesis by (simp add: js_add_zero)
      qed
      moreover from inx ih [of "participantId x"]
      have "map_of (participantTotals xs) (participantId x) = Some (Number (js_sum ?old))"
        by simp
      ultimately have "map_of (tally (participantTotals xs) x) (participantId x) =
          Some (Number (js_add (js_sum ?old) (score x)))"
        by (simp only: tally_lookup [OF x(2)] option.case) simp
      with inx True show ?thesis
        by (simp add: participantTotals_snoc js_sum_snoc)
    qed
  qed
qed

lemma participantTotals_keys:
  assumes "\<forall>s \<in> set xs. finite_num (score s)"
    and "\<forall>s \<in> set xs. participantId s \<notin> set objectPrototypeNames"
  shows "fst ` set (participantTotals xs) = participantId ` set xs"
proof -
  have "fst ` set (participantTotals xs) = dom (map_of (participantTotals xs))"
    by (simp add: dom_map_of_conv_image_fst)
  also have "\<dots> = participantId ` set xs"
    by (auto simp: participantTotals_lookup [OF assms] dom_def split: if_splits)
  finally show ?thesis .
qed

lemma participantTotals_entry:
  assumes "\<forall>s \<in> set xs. finite_num (score s)"
    and "\<forall>s \<in> set xs. participantId s \<notin> set objectPrototypeNames"
    and "e \<in> set (participantTotals xs)"
  shows "snd e = Number (js_sum (map score (filter (\<lambda>s. participantId s = fst e) xs)))"
proof -
  from assms(3) have "map_of (participantTotals xs) (fst e) = Some (snd e)"
    by (simp add: participantTotals_distinct)
  with participantTotals_lookup [OF assms(1,2), of "fst e"] show ?thesis
    by (simp split: if_splits)
qed

subsection \<open>The order of the keys\<close>

lemma objectKeys_mset: "mset (objectKeys entries) = mset entries"
  by (simp add: objectKeys_def)

lemma objectKeys_set: "set (objectKeys entries) = set entries"
  using objectKeys_mset [of entries] by (rule mset_eq_setD)

lemma objectKeys_distinct:
  "distinct (map fst entries) \<Longrightarrow> distinct (map fst (objectKeys entries))"
proof -
  assume d: "distinct (map fst entries)"
  have "mset (map fst (objectKeys entries)) = mset (map fst entries)"
    by (simp add: objectKeys_mset)
  then have "distinct (map fst (objectKeys entries)) = distinct (map fst entries)"
    by (rule mset_eq_imp_distinct_iff)
  with d show ?thesis by simp
qed

subsection \<open>The standings\<close>

lemma participantsMap_snoc: "participantsMap (ds @ [d]) = (participantsMap ds)(fst d \<mapsto> snd d)"
  by (simp add: participantsMap_def)

lemma participantsMap_None: "participantsMap ds i = None \<longleftrightarrow> i \<notin> fst ` set ds"
  by (induction ds rule: rev_induct)
     (simp add: participantsMap_def, auto simp: participantsMap_snoc)

text \<open>
  Claim C4, for scores that are finite numbers and participant ids that are not names of
  properties of \<^verbatim>\<open>Object.prototype\<close>. For every such list of scores the standings have one
  entry for each participant with at least one score and no other entry; the total of an
  entry is the sum of the participant's scores over all events, added up in the order of
  the snapshot, each partial sum rounded; the entries are in descending order of total;
  and an entry whose participant has no participant document is named \<^verbatim>\<open>Unknown\<close> with
  house \<^verbatim>\<open>N/A\<close>. For (E1, P1, 10), (E2, P1, 5), (E1, P2, 7) the standings are P1 with 15,
  then P2 with 7.
\<close>

theorem standings_totals_descending:
  assumes fin: "\<forall>s \<in> set allScores. finite_num (score s)"
    and ord: "\<forall>s \<in> set allScores. participantId s \<notin> set objectPrototypeNames"
  shows "\<exists>rows. calculateStandings pdocs allScores = Some rows \<and>
     distinct (map standingId rows) \<and>
     set (map standingId rows) = participantId ` set allScores \<and>
     (\<forall>e \<in> set rows.
        totalScore e =
          Number (js_sum (map score (filter (\<lambda>s. participantId s = standingId e) allScores)))) \<and>
     descendingByTotal rows \<and>
     (\<forall>e \<in> set rows.
        standingId e \<notin> fst ` set pdocs \<longrightarrow>
        standingName e = ''Unknown'' \<and> standingHouse e = ''N/A'')"
proof -
  let ?pm = "participantsMap pdocs"
  let ?entries = "objectKeys (participantTotals allScores)"
  let ?unsorted = "map (makeStanding ?pm) ?entries"
  let ?k = "\<lambda>e. toNumber (totalScore e)"
  let ?rows = "sort_key (\<lambda>z. descendingKey (?k z)) ?unsorted"
  have cmp: "\<And>a b. byTotal a b = js_sub (?k b) (?k a)"
    by (simp add: byTotal_def)
  have total: "totalScore e =
      Number (js_sum (map score (filter (\<lambda>s. participantId s = standingId e) allScores)))"
    if "e \<in> set ?unsorted" for e
    using that participantTotals_entry [OF fin ord]
    by (auto simp: makeStanding_def objectKeys_set)
  have num: "\<forall>e \<in> set ?unsorted. onGridNumber (?k e) \<and> ?k e \<noteq> NaN"
  proof
    fix e assume e: "e \<in> set ?unsorted"
    have "\<forall>v \<in> set (map score (filter (\<lambda>s. participantId s = standingId e) allScores)).
        finite_num v"
      using fin by simp
    from js_sum_not_NaN [OF this] total [OF e] show "onGridNumber (?k e) \<and> ?k e \<noteq> NaN"
      by (simp add: js_sum_onGridNumber)
  qed
  then have notNaN: "\<forall>e \<in> set ?unsorted. ?k e \<noteq> NaN" by simp
  have res: "calculateStandings pdocs allScores = Some ?rows"
    unfolding calculateStandings_def by (rule sortBy_sort_key [OF cmp num])
  have st: "set ?rows = set ?unsorted" by simp
  have ids: "map standingId ?unsorted = map fst ?entries"
    by (simp add: makeStanding_def)
  have "mset ?rows = mset ?unsorted" by simp
  then have "mset (map standingId ?rows) = mset (map standingId ?unsorted)"
    by (metis mset_map)
  then have "distinct (map standingId ?rows) = distinct (map standingId ?unsorted)"
    by (rule mset_eq_imp_distinct_iff)
  then have a: "distinct (map standingId ?rows)"
    by (simp only: ids objectKeys_distinct [OF participantTotals_distinct])
  have "set (map standingId ?rows) = set (map standingId ?unsorted)"
    using st by (simp only: set_map)
  then have b: "set (map standingId ?rows) = participantId ` set allScores"
    unfolding ids using participantTotals_keys [OF fin ord] by (simp add: objectKeys_set)
  have c: "\<forall>e \<in> set ?rows.
        totalScore e =
          Number (js_sum (map score (filter (\<lambda>s. participantId s = standingId e) allScores)))"
    using st total by blast
  have d: "descendingByTotal ?rows"
    unfolding descendingByTotal_def by (rule sort_key_descending [OF notNaN])
  have "standingName e = ''Unknown'' \<and> standingHouse e = ''N/A''"
    if "e \<in> set ?unsorted" "standingId e \<notin> fst ` set pdocs" for e
  proof -
    from that(1) obtain p where p: "p \<in> set (participantTotals allScores)"
      and e: "e = makeStanding ?pm p"
      by (auto simp: objectKeys_set)
    from p have "fst p \<in> fst ` set (participantTotals allScores)" by (rule imageI)
    then have "fst p \<in> participantId ` set allScores"
      by (simp only: participantTotals_keys [OF fin ord])
    with ord have "fst p \<notin> set objectPrototypeNames" by auto
    moreover from e that(2) have "?pm (fst p) = None"
      by (simp add: participantsMap_None makeStanding_def)
    ultimately have "getProperty ?pm (fst p) = Undefined"
      by (simp add: getProperty_def)
    with e show ?thesis by (simp add: makeStanding_def nameOf_def houseOf_def orElse_def)
  qed
  with st have f: "\<forall>e \<in> set ?rows.
        standingId e \<notin> fst ` set pdocs \<longrightarrow>
        standingName e = ''Unknown'' \<and> standingHouse e = ''N/A''"
    by blast
  from res a b c d f show ?thesis by blast
qed

theorem standings_totals_descending_witness:
  "list_all (\<lambda>s. finite_num (score s) \<and> participantId s \<notin> set objectPrototypeNames)
      [\<lparr>eventId = ''E1'', participantId = ''P1'', score = Num 10, timestamp = 1\<rparr>,
       \<lparr>eventId = ''E2'', participantId = ''P1'', score = Num 5, timestamp = 2\<rparr>,
       \<lparr>eventId = ''E1'', participantId = ''P2'', score = Num 7, timestamp = 3\<rparr>] \<and>
   calculateStandings [(''P1'', \<lparr>name = ''Alice'', house = ''Red''\<rparr>)]
      [\<lparr>eventId = ''E1'', participantId = ''P1'', score = Num 10, timestamp = 1\<rparr>,
       \<lparr>eventId = ''E2'', participantId = ''P1'', score = Num 5, timestamp = 2\<rparr>,
       \<lparr>eventId = ''E1'', participantId = ''P2'', score = Num 7, timestamp = 3\<rparr>]
     = Some
       [\<lparr>standingId = ''P1'', standingName = ''Alice'', standingHouse = ''Red'',
          totalScore = Number (Num 15)\<rparr>,
        \<lparr>standingId = ''P2'', standingName = ''Unknown'', standingHouse = ''N/A'',
          totalScore = Number (Num 7)\<rparr>] \<and>
   descendingByTotal
       [\<lparr>standingId = ''P1'', standingName = ''Alice'', standingHouse = ''Red'',
          totalScore = Number (Num 15)\<rparr>,
        \<lparr>standingId = ''P2'', standingName = ''Unknown'', standingHouse = ''N/A'',
          totalScore = Number (Num 7)\<rparr>]"
proof -
  let ?scores =
     "[\<lparr>eventId = ''E1'', participantId = ''P1'', score = Num 10, timestamp = 1\<rparr>,
       \<lparr>eventId = ''E2'', participantId = ''P1'', score = Num 5, timestamp = 2\<rparr>,
       \<lparr>eventId = ''E1'', participantId = ''P2'', score = Num 7, timestamp = 3\<rparr>]"
  let ?pdocs = "[(''P1'', \<lparr>name = ''Alice'', house = ''Red''\<rparr>)]"
  let ?rows =
      "[\<lparr>standingId = ''P1'', standingName = ''Alice'', standingHouse = ''Red'',
          totalScore = Number (Num 15)\<rparr>,
        \<lparr>standingId = ''P2'', standingName = ''Unknown'', standingHouse = ''N/A'',
          totalScore = Number (Num 7)\<rparr>]"
  have given: "list_all (\<lambda>s. finite_num (score s) \<and>
      participantId s \<notin> set objectPrototypeNames) ?scores"
    by (simp add: toDouble_integer objectPrototypeNames_def)
  then have fin: "\<forall>s \<in> set ?scores. finite_num (score s)"
    and ord: "\<forall>s \<in> set ?scores. participantId s \<notin> set objectPrototypeNames"
    unfolding list_all_iff by blast+
  have result: "calculateStandings ?pdocs ?scores = Some ?rows"
    by (simp add: calculateStandings_def participantTotals_def tally_def getProperty_def
        objectPrototypeNames_def objectKeys_def arrayIndex_def isDigit_def participantsMap_def
        makeStanding_def nameOf_def houseOf_def orElse_def sortBy_def
        consistentComparator_def byTotal_def toDouble_integer)
  from standings_totals_descending [OF fin ord, of ?pdocs]
  obtain rows where "calculateStandings ?pdocs ?scores = Some rows" "descendingByTotal rows"
    by blast
  with result have "descendingByTotal ?rows" by simp
  with given result show ?thesis by (intro conjI)
qed

text \<open>
  The restrictions are needed. A point alone passes the input filter and is saved as
  \<^verbatim>\<open>NaN\<close>. A total that is \<^verbatim>\<open>NaN\<close> is falsy, so the next score of the participant replaces
  it, where the sum stays \<^verbatim>\<open>NaN\<close>; and an entry with the total \<^verbatim>\<open>NaN\<close> stays where the
  order of the keys puts it, here below a total of 5 that is not \<^verbatim>\<open><=\<close> it.
\<close>

theorem standings_with_NaN_score:
  "calculateStandings []
      [\<lparr>eventId = ''E1'', participantId = ''P1'', score = NaN, timestamp = 1\<rparr>,
       \<lparr>eventId = ''E2'', participantId = ''P1'', score = Num 5, timestamp = 2\<rparr>,
       \<lparr>eventId = ''E1'', participantId = ''P2'', score = NaN, timestamp = 3\<rparr>]
     = Some
       [\<lparr>standingId = ''P1'', standingName = ''Unknown'', standingHouse = ''N/A'',
          totalScore = Number (Num 5)\<rparr>,
        \<lparr>standingId = ''P2'', standingName = ''Unknown'', standingHouse = ''N/A'',
          totalScore = Number NaN\<rparr>] \<and>
   js_sum [NaN, Num 5] = NaN \<and>
   \<not> descendingByTotal
       [\<lparr>standingId = ''P1'', standingName = ''Unknown'', standingHouse = ''N/A'',
          totalScore = Number (Num 5)\<rparr>,
        \<lparr>standingId = ''P2'', standingName = ''Unknown'', standingHouse = ''N/A'',
          totalScore = Number NaN\<rparr>]"
  by (simp add: calculateStandings_def participantTotals_def tally_def getProperty_def
      objectPrototypeNames_def objectKeys_def arrayIndex_def isDigit_def participantsMap_def
      makeStanding_def nameOf_def houseOf_def orElse_def sortBy_def
      consistentComparator_def byTotal_def descendingByTotal_def js_sum_def toDouble_integer)

text \<open>
  A participant id that names a property of \<^verbatim>\<open>Object.prototype\<close> (no id that Firestore
  generates is one of the twelve but \<^verbatim>\<open>propertyIsEnumerable\<close>, which has its 20 letters)
  does not get a total: with \<^verbatim>\<open>__proto__\<close> there is no entry at all, with the name of a
  method the total is a text.
\<close>

lemma standings_with_inherited_names:
  "calculateStandings []
      [\<lparr>eventId = ''E1'', participantId = ''__proto__'', score = Num 5, timestamp = 1\<rparr>] =
     Some [] \<and>
   calculateStandings []
      [\<lparr>eventId = ''E1'', participantId = ''constructor'', score = Num 5, timestamp = 1\<rparr>,
       \<lparr>eventId = ''E2'', participantId = ''constructor'', score = Num 7, timestamp = 2\<rparr>] =
     Some [\<lparr>standingId = ''constructor'', standingName = ''Object'', standingHouse = ''N/A'',
             totalScore = Text\<rparr>]"
  by (simp add: calculateStandings_def participantTotals_def tally_def getProperty_def
      objectPrototypeNames_def objectKeys_def arrayIndex_def isDigit_def participantsMap_def
      makeStanding_def nameOf_def houseOf_def orElse_def sortBy_def
      consistentComparator_def byTotal_def)

text \<open>
  Ids that are array indices are listed before the others, which shows in the order of
  equal totals.
\<close>

lemma standings_with_index_keys:
  "map standingId (the (calculateStandings []
      [\<lparr>eventId = ''E1'', participantId = ''zz'', score = Num 5, timestamp = 1\<rparr>,
       \<lparr>eventId = ''E1'', participantId = ''7'', score = Num 5, timestamp = 2\<rparr>,
       \<lparr>eventId = ''E1'', participantId = ''3'', score = Num 5, timestamp = 3\<rparr>])) =
     [''3'', ''7'', ''zz'']"
  by (simp add: calculateStandings_def participantTotals_def tally_def getProperty_def
      objectPrototypeNames_def objectKeys_def arrayIndex_def isDigit_def participantsMap_def
      makeStanding_def nameOf_def houseOf_def orElse_def sortBy_def digitsValue_def
      digitValue_def consistentComparator_def byTotal_def toDouble_integer)

text \<open>
  The sum is the one that \<^verbatim>\<open>+\<close> computes: for the doubles nearest to 0.1 and 0.2 it is the
  double above the one nearest to 0.3.
\<close>

lemma total_is_rounded_sum:
  "parseFloat ''0.1'' = Num (3602879701896397 / 2 ^ 55) \<and>
   parseFloat ''0.2'' = Num (3602879701896397 / 2 ^ 54) \<and>
   parseFloat ''0.3'' = Num (5404319552844595 / 2 ^ 54) \<and>
   js_sum [Num (3602879701896397 / 2 ^ 55), Num (3602879701896397 / 2 ^ 54)] =
     Num (5404319552844596 / 2 ^ 54)"
  by code_simp


section \<open>Writes to the score collection\<close>

lemma map_of_update_doc:
  "map_of (map (\<lambda>e. if fst e = i then (i, d) else e) docs) j =
     (if j = i \<and> i \<in> fst ` set docs then Some d else map_of docs j)"
  by (induction docs) (auto simp: image_iff, force)

lemma map_fst_update_doc:
  "map fst (map (\<lambda>e. if fst e = i then (i, d) else e) docs) = map fst docs"
  by (induction docs) auto

lemma map_pairKey_update_doc:
  assumes "distinct (map fst docs)" "(i, old) \<in> set docs" "pairKey (i, old) = pairKey (i, d)"
  shows "map pairKey (map (\<lambda>e. if fst e = i then (i, d) else e) docs) = map pairKey docs"
proof -
  have "pairKey (if fst e = i then (i, d) else e) = pairKey e" if "e \<in> set docs" for e
  proof (cases "fst e = i")
    case True
    with that assms(1,2) have "e = (i, old)"
      by (metis eq_key_imp_eq_value prod.collapse)
    with True assms(3) show ?thesis by simp
  next
    case False
    then show ?thesis by simp
  qed
  then show ?thesis by simp
qed

lemma filter_update_doc:
  assumes "distinct (map fst docs)" "(i, old) \<in> set docs" "P old" "P d"
  shows "filter (\<lambda>e. P (snd e)) (map (\<lambda>e. if fst e = i then (i, d) else e) docs) =
         map (\<lambda>e. if fst e = i then (i, d) else e) (filter (\<lambda>e. P (snd e)) docs)"
proof -
  have "P (snd (if fst e = i then (i, d) else e)) = P (snd e)" if "e \<in> set docs" for e
  proof (cases "fst e = i")
    case True
    with that assms(1,2) have "e = (i, old)"
      by (metis eq_key_imp_eq_value prod.collapse)
    with True assms(3,4) show ?thesis by simp
  next
    case False
    then show ?thesis by simp
  qed
  then show ?thesis
    by (induction docs) (auto simp: filter_map comp_def)
qed

section \<open>Cascading deletion\<close>

lemma detached_deleteScoreDoc:
  "detached w (deleteScoreDoc en i w) =
     (if denied en (DeleteDoc Scores i) then w
      else w\<lparr>scoreDocs := filter (\<lambda>d. fst d \<noteq> i) (scoreDocs w)\<rparr>)"
  by (simp add: detached_def deleteScoreDoc_def)

text \<open>What is left after the loop: the documents whose deletion was not asked for or was rejected.\<close>

lemma deleteEach_scoreDocs:
  "scoreDocs (deleteEach en snapshot w) =
     filter (\<lambda>d. fst d \<notin> fst ` set snapshot \<or> denied en (DeleteDoc Scores (fst d))) (scoreDocs w)"
proof (induction snapshot arbitrary: w)
  case Nil
  show ?case by (simp add: deleteEach_def)
next
  case (Cons x xs)
  have "deleteEach en (x # xs) w = deleteEach en xs (detached w (deleteScoreDoc en (fst x) w))"
    by (simp add: deleteEach_def)
  then show ?case
    by (auto simp: Cons.IH detached_deleteScoreDoc intro!: filter_cong)
qed

lemma handleDeleteEvent_scoreDocs:
  "\<exists>P. scoreDocs (fst (handleDeleteEvent en ev w)) = filter P (scoreDocs w)"
proof (cases "denied en (DeleteDoc Events ev) \<or> denied en (GetDocs Scores)")
  case True
  then have "scoreDocs (fst (handleDeleteEvent en ev w)) = filter (\<lambda>d. True) (scoreDocs w)"
    by (auto simp: handleDeleteEvent_def deleteEventDoc_def getScoreDocs_def)
  then show ?thesis by blast
next
  case False
  then show ?thesis
    by (auto simp: handleDeleteEvent_def deleteEventDoc_def getScoreDocs_def deleteEach_scoreDocs)
qed

lemma handleDeleteParticipant_scoreDocs:
  "\<exists>P. scoreDocs (fst (handleDeleteParticipant en pid w)) = filter P (scoreDocs w)"
proof (cases "denied en (DeleteDoc Participants pid) \<or> denied en (GetDocs Scores)")
  case True
  then have "scoreDocs (fst (handleDeleteParticipant en pid w)) = filter (\<lambda>d. True) (scoreDocs w)"
    by (auto simp: handleDeleteParticipant_def deleteParticipantDoc_def getScoreDocs_def)
  then show ?thesis by blast
next
  case False
  then show ?thesis
    by (auto simp: handleDeleteParticipant_def deleteParticipantDoc_def getScoreDocs_def
        deleteEach_scoreDocs)
qed

text \<open>When the backend rejects none of the requests, the cascade is complete.\<close>

lemma cascade_complete_if_nothing_rejected:
  assumes "\<forall>op. \<not> denied en op"
  shows "\<forall>d \<in> set (scoreDocs (fst (handleDeleteEvent en ev w))). eventId (snd d) \<noteq> ev"
    and "\<forall>d \<in> set (scoreDocs (fst (handleDeleteParticipant en pid w))). participantId (snd d) \<noteq> pid"
  using assms
  by (auto simp: handleDeleteEvent_def handleDeleteParticipant_def deleteEventDoc_def
      deleteParticipantDoc_def getScoreDocs_def deleteEach_scoreDocs image_iff)

text \<open>
  Claim C3, which says that once \<^verbatim>\<open>deleteEvent(E)\<close> has completed without error no score
  of \<open>E\<close> remains, each score having been deleted before completion (and the same for a
  participant). The handlers do not wait for the deletions of the scores and do not see
  their rejections: with a backend that rejects the deletion of the score \<^verbatim>\<open>s1\<close>, the
  handler deletes the event \<^verbatim>\<open>E1\<close>, reports that the event and its scores were deleted,
  and \<^verbatim>\<open>s1\<close>, a score of \<^verbatim>\<open>E1\<close>, is still in the collection. The handler for a participant
  does the same with \<^verbatim>\<open>P1\<close>.
\<close>

theorem cascade_reports_success_with_score_left:
  "handleDeleteEvent (demoEnv\<lparr>denied := (\<lambda>op. op = DeleteDoc Scores ''s1'')\<rparr>) ''E1'' demoWorld =
     (demoWorld\<lparr>eventDocs := []\<rparr>, Message ''Event and its scores deleted successfully!'') \<and>
   scoreDocs (fst (handleDeleteEvent
       (demoEnv\<lparr>denied := (\<lambda>op. op = DeleteDoc Scores ''s1'')\<rparr>) ''E1'' demoWorld)) =
     [(''s1'', \<lparr>eventId = ''E1'', participantId = ''P1'', score = Num 10, timestamp = 900\<rparr>)] \<and>
   handleDeleteParticipant (demoEnv\<lparr>denied := (\<lambda>op. op = DeleteDoc Scores ''s1'')\<rparr>) ''P1'' demoWorld =
     (demoWorld\<lparr>participantDocs := [(''P2'', \<lparr>name = ''Bob'', house = ''Blue''\<rparr>)]\<rparr>,
      Message ''Participant and their scores deleted successfully!'') \<and>
   scoreDocs (fst (handleDeleteParticipant
       (demoEnv\<lparr>denied := (\<lambda>op. op = DeleteDoc Scores ''s1'')\<rparr>) ''P1'' demoWorld)) =
     [(''s1'', \<lparr>eventId = ''E1'', participantId = ''P1'', score = Num 10, timestamp = 900\<rparr>)]"
  by (simp add: handleDeleteEvent_def handleDeleteParticipant_def deleteEventDoc_def
      deleteParticipantDoc_def getScoreDocs_def deleteEach_def detached_def deleteScoreDoc_def
      demoEnv_def demoWorld_def)

section \<open>Saving from the score-entry form\<close>

lemma getProperty_Own: "getProperty obj k = Own v \<longleftrightarrow> obj k = Some v"
  by (auto simp: getProperty_def split: option.splits)

lemma getProperty_Undefined:
  "getProperty obj k = Undefined \<longleftrightarrow> obj k = None \<and> k \<notin> set objectPrototypeNames"
  by (auto simp: getProperty_def split: option.splits)

lemma proto_inherited: "''__proto__'' \<in> set objectPrototypeNames"
  by (simp add: objectPrototypeNames_def)

lemma currentExistingScores_snoc:
  "currentExistingScores (ds @ [d]) =
     setProperty (currentExistingScores ds) (participantId (snd d)) (fst d)"
  by (simp add: currentExistingScores_def)

lemma currentExistingScores_Some:
  "currentExistingScores ds pid = Some sid \<Longrightarrow>
     \<exists>d \<in> set ds. fst d = sid \<and> participantId (snd d) = pid"
  by (induction ds rule: rev_induct)
     (simp add: currentExistingScores_def,
      auto simp: currentExistingScores_snoc setProperty_def split: if_splits)

lemma currentExistingScores_None:
  "currentExistingScores ds pid = None \<longleftrightarrow>
     pid = ''__proto__'' \<or> pid \<notin> (\<lambda>d. participantId (snd d)) ` set ds"
  by (induction ds rule: rev_induct)
     (simp add: currentExistingScores_def,
      auto simp: currentExistingScores_snoc setProperty_def)

lemma in_keyed:
  "d \<in> set docs \<Longrightarrow> fst d = i \<Longrightarrow> pairKey d = k \<Longrightarrow>
     (i, k) \<in> set (map (\<lambda>d. (fst d, pairKey d)) docs)"
  by force

lemma upToDate_Own:
  "getProperty ex q = Own sq \<Longrightarrow>
     upToDate ev ex docs q \<longleftrightarrow> (sq, ev, q) \<in> set (map (\<lambda>d. (fst d, pairKey d)) docs)"
  by (simp add: upToDate_def)

lemma upToDate_Undefined:
  "getProperty ex q = Undefined \<Longrightarrow>
     upToDate ev ex docs q \<longleftrightarrow> (ev, q) \<notin> set (map pairKey docs)"
  by (simp add: upToDate_def)

lemma upToDate_Inherited: "getProperty ex q = Inherited \<Longrightarrow> \<not> upToDate ev ex docs q"
  by (simp add: upToDate_def)

text \<open>
  What the listener built is up to date for the store it was built from, for every
  participant id that is not the name of a property of \<^verbatim>\<open>Object.prototype\<close> (and for such a
  name that is the participant of a score of the event, unless it is \<^verbatim>\<open>__proto__\<close>).
\<close>

lemma listener_upToDate:
  assumes "getProperty (currentExistingScores (eventScoreDocs ev w)) pid \<noteq> Inherited"
  shows "upToDate ev (currentExistingScores (eventScoreDocs ev w)) (scoreDocs w) pid"
proof (cases "getProperty (currentExistingScores (eventScoreDocs ev w)) pid")
  case Undefined
  then have "currentExistingScores (eventScoreDocs ev w) pid = None"
    and "pid \<notin> set objectPrototypeNames"
    by (simp_all add: getProperty_Undefined)
  with proto_inherited have "pid \<notin> (\<lambda>d. participantId (snd d)) ` set (eventScoreDocs ev w)"
    by (auto simp: currentExistingScores_None)
  have "(ev, pid) \<notin> set (map pairKey (scoreDocs w))"
  proof
    assume "(ev, pid) \<in> set (map pairKey (scoreDocs w))"
    then obtain d where "d \<in> set (scoreDocs w)" "pairKey d = (ev, pid)" by auto
    then have "d \<in> set (eventScoreDocs ev w)" "participantId (snd d) = pid"
      by (simp_all add: eventScoreDocs_def pairKey_def)
    with \<open>pid \<notin> (\<lambda>d. participantId (snd d)) ` set (eventScoreDocs ev w)\<close> show False
      by blast
  qed
  with Undefined show ?thesis by (simp add: upToDate_Undefined)
next
  case (Own sid)
  then have "currentExistingScores (eventScoreDocs ev w) pid = Some sid"
    by (simp add: getProperty_Own)
  then obtain d where "d \<in> set (eventScoreDocs ev w)" "fst d = sid" "participantId (snd d) = pid"
    using currentExistingScores_Some by blast
  then have "d \<in> set (scoreDocs w)" "fst d = sid" "pairKey d = (ev, pid)"
    by (simp_all add: eventScoreDocs_def pairKey_def)
  then have "(sid, ev, pid) \<in> set (map (\<lambda>d. (fst d, pairKey d)) (scoreDocs w))"
    by (rule in_keyed)
  with Own show ?thesis by (simp add: upToDate_Own)
next
  case Inherited
  with assms show ?thesis by simp
qed

lemma same_id_same_doc:
  "distinct (map fst docs) \<Longrightarrow> d \<in> set docs \<Longrightarrow> d' \<in> set docs \<Longrightarrow> fst d = fst d' \<Longrightarrow> d = d'"
  by (metis eq_key_imp_eq_value prod.collapse)

text \<open>The three writes keep the invariant, and keep the map up to date for other participants.\<close>

lemma update_keeps:
  assumes ids: "distinct (map fst docs)" and pairs: "distinct (map pairKey docs)"
    and cur: "(sid, ev, pid) \<in> set (map (\<lambda>d. (fst d, pairKey d)) docs)"
    and new: "eventId new = ev" "participantId new = pid"
  shows "distinct (map fst (map (\<lambda>e. if fst e = sid then (sid, new) else e) docs))"
    and "distinct (map pairKey (map (\<lambda>e. if fst e = sid then (sid, new) else e) docs))"
    and "q \<noteq> pid \<Longrightarrow> upToDate ev ex docs q \<Longrightarrow>
         upToDate ev ex (map (\<lambda>e. if fst e = sid then (sid, new) else e) docs) q"
proof -
  let ?upd = "\<lambda>e. if fst e = sid then (sid, new) else e"
  from cur obtain old where old: "(sid, old) \<in> set docs" "pairKey (sid, old) = (ev, pid)"
    by auto
  with new have same: "pairKey (sid, old) = pairKey (sid, new)" by (simp add: pairKey_def)
  show "distinct (map fst (map ?upd docs))"
    using ids by (simp only: map_fst_update_doc)
  have pk: "map pairKey (map ?upd docs) = map pairKey docs"
    by (rule map_pairKey_update_doc [OF ids old(1) same])
  show "distinct (map pairKey (map ?upd docs))"
    using pairs by (simp only: pk)
  show "upToDate ev ex (map ?upd docs) q" if q: "q \<noteq> pid" and up: "upToDate ev ex docs q"
  proof (cases "getProperty ex q")
    case Inherited
    with up show ?thesis by (simp add: upToDate_Inherited)
  next
    case Undefined
    with up show ?thesis by (simp only: upToDate_Undefined pk) simp
  next
    case (Own sq)
    with up obtain dq where dq: "dq \<in> set docs" "fst dq = sq" "pairKey dq = (ev, q)"
      by (auto simp: upToDate_Own)
    have "sq \<noteq> sid"
    proof
      assume "sq = sid"
      with dq(2) have "fst dq = fst (sid, old)" by simp
      with same_id_same_doc [OF ids dq(1) old(1)] have "dq = (sid, old)" by simp
      with dq old(2) q show False by simp
    qed
    with dq have "?upd dq = dq" by simp
    with dq(1) have "dq \<in> set (map ?upd docs)" by (simp only: set_map) (rule image_eqI, auto)
    then have "(sq, ev, q) \<in> set (map (\<lambda>d. (fst d, pairKey d)) (map ?upd docs))"
      using dq(2,3) by (rule in_keyed)
    with Own show ?thesis by (simp only: upToDate_Own)
  qed
qed

lemma add_keeps:
  assumes ids: "distinct (map fst docs)" and pairs: "distinct (map pairKey docs)"
    and cur: "(ev, pid) \<notin> set (map pairKey docs)" and fresh: "i \<notin> set (map fst docs)"
    and new: "eventId new = ev" "participantId new = pid"
  shows "distinct (map fst (docs @ [(i, new)]))"
    and "distinct (map pairKey (docs @ [(i, new)]))"
    and "q \<noteq> pid \<Longrightarrow> upToDate ev ex docs q \<Longrightarrow> upToDate ev ex (docs @ [(i, new)]) q"
proof -
  show "distinct (map fst (docs @ [(i, new)]))" using ids fresh by simp
  have pk: "pairKey (i, new) = (ev, pid)" using new by (simp add: pairKey_def)
  show "distinct (map pairKey (docs @ [(i, new)]))" using pairs cur by (simp add: pk)
  show "upToDate ev ex (docs @ [(i, new)]) q" if "q \<noteq> pid" "upToDate ev ex docs q"
    using that by (auto simp: upToDate_def pk split: property.splits)
qed

lemma delete_keeps:
  assumes ids: "distinct (map fst docs)" and pairs: "distinct (map pairKey docs)"
    and cur: "(sid, ev, pid) \<in> set (map (\<lambda>d. (fst d, pairKey d)) docs)"
  shows "distinct (map fst (filter (\<lambda>d. fst d \<noteq> sid) docs))"
    and "distinct (map pairKey (filter (\<lambda>d. fst d \<noteq> sid) docs))"
    and "q \<noteq> pid \<Longrightarrow> upToDate ev ex docs q \<Longrightarrow>
         upToDate ev ex (filter (\<lambda>d. fst d \<noteq> sid) docs) q"
proof -
  show "distinct (map fst (filter (\<lambda>d. fst d \<noteq> sid) docs))"
    using ids by (rule distinct_map_filter)
  show "distinct (map pairKey (filter (\<lambda>d. fst d \<noteq> sid) docs))"
    using pairs by (rule distinct_map_filter)
  from cur obtain old where old: "(sid, old) \<in> set docs" "pairKey (sid, old) = (ev, pid)"
    by auto
  show "upToDate ev ex (filter (\<lambda>d. fst d \<noteq> sid) docs) q"
    if q: "q \<noteq> pid" and up: "upToDate ev ex docs q"
  proof (cases "getProperty ex q")
    case Inherited
    with up show ?thesis by (simp add: upToDate_Inherited)
  next
    case Undefined
    with up show ?thesis by (auto simp: upToDate_Undefined)
  next
    case (Own sq)
    with up obtain dq where dq: "dq \<in> set docs" "fst dq = sq" "pairKey dq = (ev, q)"
      by (auto simp: upToDate_Own)
    have "sq \<noteq> sid"
    proof
      assume "sq = sid"
      with dq(2) have "fst dq = fst (sid, old)" by simp
      with same_id_same_doc [OF ids dq(1) old(1)] have "dq = (sid, old)" by simp
      with dq old(2) q show False by simp
    qed
    with dq have "dq \<in> set (filter (\<lambda>d. fst d \<noteq> sid) docs)" by simp
    then have "(sq, ev, q) \<in> set (map (\<lambda>d. (fst d, pairKey d)) (filter (\<lambda>d. fst d \<noteq> sid) docs))"
      using dq(2,3) by (rule in_keyed)
    with Own show ?thesis by (simp only: upToDate_Own)
  qed
qed

text \<open>The four things the save for one participant can do to the collection.\<close>

lemma saveParticipantScore_cases:
  assumes "saveParticipantScore en ev scores ex pid w = Inr w'"
  shows "(\<exists>sid new. getProperty ex pid = Own sid \<and> eventId new = ev \<and> participantId new = pid \<and>
            scoreDocs w' = map (\<lambda>e. if fst e = sid then (sid, new) else e) (scoreDocs w)) \<or>
         (\<exists>i new. getProperty ex pid = Undefined \<and> eventId new = ev \<and> participantId new = pid \<and>
            i \<notin> set (map fst (scoreDocs w)) \<and> scoreDocs w' = scoreDocs w @ [(i, new)]) \<or>
         (\<exists>sid. getProperty ex pid = Own sid \<and>
            scoreDocs w' = filter (\<lambda>d. fst d \<noteq> sid) (scoreDocs w)) \<or>
         scoreDocs w' = scoreDocs w"
proof (cases "entered (getProperty scores pid)")
  case True
  let ?new = "\<lparr>eventId = ev, participantId = pid, score = parseField (getProperty scores pid),
      timestamp = dateAt en (calls w)\<rparr>"
  show ?thesis
  proof (cases "getProperty ex pid")
    case Undefined
    with assms True
    have "idAt en (Suc (calls w)) \<notin> set (map fst (scoreDocs w)) \<and>
        scoreDocs w' = scoreDocs w @ [(idAt en (Suc (calls w)), ?new)]"
      by (auto simp: saveParticipantScore_def newDate_def addScoreDoc_def Let_def
          split: if_splits)
    with Undefined have "getProperty ex pid = Undefined \<and> eventId ?new = ev \<and>
        participantId ?new = pid \<and>
        idAt en (Suc (calls w)) \<notin> set (map fst (scoreDocs w)) \<and>
        scoreDocs w' = scoreDocs w @ [(idAt en (Suc (calls w)), ?new)]"
      by simp
    then show ?thesis by blast
  next
    case (Own sid)
    with assms True
    have "scoreDocs w' = map (\<lambda>e. if fst e = sid then (sid, ?new) else e) (scoreDocs w)"
      by (auto simp: saveParticipantScore_def newDate_def updateScoreDoc_def Let_def
          split: if_splits)
    with Own have "getProperty ex pid = Own sid \<and> eventId ?new = ev \<and> participantId ?new = pid \<and>
        scoreDocs w' = map (\<lambda>e. if fst e = sid then (sid, ?new) else e) (scoreDocs w)"
      by simp
    then show ?thesis by blast
  next
    case Inherited
    with assms True show ?thesis
      by (simp add: saveParticipantScore_def newDate_def Let_def)
  qed
next
  case False
  show ?thesis
  proof (cases "getProperty ex pid")
    case Undefined
    with assms False have "w' = w"
      by (simp add: saveParticipantScore_def Let_def)
    then show ?thesis by simp
  next
    case (Own sid)
    with assms False have "scoreDocs w' = filter (\<lambda>d. fst d \<noteq> sid) (scoreDocs w)"
      by (auto simp: saveParticipantScore_def deleteScoreDoc_def Let_def split: if_splits)
    with Own show ?thesis by blast
  next
    case Inherited
    with assms False show ?thesis
      by (simp add: saveParticipantScore_def Let_def)
  qed
qed

lemma saveParticipantScore_Inherited:
  "getProperty ex pid = Inherited \<Longrightarrow>
     saveParticipantScore en ev scores ex pid w = Inl InvalidArgument"
  by (simp add: saveParticipantScore_def newDate_def Let_def)

lemma saveParticipantScore_keeps:
  assumes ids: "distinct (map fst (scoreDocs w))" and pairs: "distinct (map pairKey (scoreDocs w))"
    and up: "upToDate ev ex (scoreDocs w) pid"
    and res: "saveParticipantScore en ev scores ex pid w = Inr w'"
  shows "distinct (map fst (scoreDocs w')) \<and> distinct (map pairKey (scoreDocs w')) \<and>
         (\<forall>q. q \<noteq> pid \<longrightarrow> upToDate ev ex (scoreDocs w) q \<longrightarrow> upToDate ev ex (scoreDocs w') q)"
  using saveParticipantScore_cases [OF res]
proof (elim disjE exE conjE)
  fix sid new
  assume a: "getProperty ex pid = Own sid" "eventId new = ev" "participantId new = pid"
    "scoreDocs w' = map (\<lambda>e. if fst e = sid then (sid, new) else e) (scoreDocs w)"
  with up have cur: "(sid, ev, pid) \<in> set (map (\<lambda>d. (fst d, pairKey d)) (scoreDocs w))"
    by (simp add: upToDate_Own)
  from update_keeps [OF ids pairs cur a(2,3)] show ?thesis
    unfolding a(4) by blast
next
  fix i new
  assume a: "getProperty ex pid = Undefined" "eventId new = ev" "participantId new = pid"
    "i \<notin> set (map fst (scoreDocs w))" "scoreDocs w' = scoreDocs w @ [(i, new)]"
  with up have cur: "(ev, pid) \<notin> set (map pairKey (scoreDocs w))"
    by (simp add: upToDate_Undefined)
  from add_keeps [OF ids pairs cur a(4) a(2,3)] show ?thesis
    unfolding a(5) by blast
next
  fix sid
  assume a: "getProperty ex pid = Own sid"
    "scoreDocs w' = filter (\<lambda>d. fst d \<noteq> sid) (scoreDocs w)"
  with up have cur: "(sid, ev, pid) \<in> set (map (\<lambda>d. (fst d, pairKey d)) (scoreDocs w))"
    by (simp add: upToDate_Own)
  from delete_keeps [OF ids pairs cur] show ?thesis
    unfolding a(2) by blast
next
  assume "scoreDocs w' = scoreDocs w"
  with ids pairs show ?thesis by simp
qed

text \<open>
  The whole loop, when nothing else writes meanwhile and the form's \<^verbatim>\<open>existingScores\<close> is
  up to date at the start for the participants of the list, which are documents of a
  snapshot, so that their ids differ. A participant for which the lookup gives an
  inherited property ends the loop.
\<close>

lemma saveAll_keeps:
  assumes "distinct (map fst (scoreDocs w))" "distinct (map pairKey (scoreDocs w))"
    and "distinct (map fst participants)"
    and "\<forall>p \<in> set participants.
           getProperty ex (fst p) \<noteq> Inherited \<longrightarrow> upToDate ev ex (scoreDocs w) (fst p)"
  shows "distinct (map fst (scoreDocs (fst (saveAll en ev scores ex participants w)))) \<and>
         distinct (map pairKey (scoreDocs (fst (saveAll en ev scores ex participants w))))"
  using assms
proof (induction participants arbitrary: w)
  case Nil
  then show ?case by simp
next
  case (Cons p ps)
  show ?case
  proof (cases "saveParticipantScore en ev scores ex (fst p) w")
    case (Inl e)
    with Cons.prems show ?thesis by simp
  next
    case (Inr w')
    then have "getProperty ex (fst p) \<noteq> Inherited"
      using saveParticipantScore_Inherited [of ex "fst p" en ev scores w] by auto
    with Cons.prems have up: "upToDate ev ex (scoreDocs w) (fst p)" by simp
    note keeps = saveParticipantScore_keeps [OF Cons.prems(1,2) up Inr]
    have "\<forall>q \<in> set ps. getProperty ex (fst q) \<noteq> Inherited \<longrightarrow>
        upToDate ev ex (scoreDocs w') (fst q)"
    proof (intro ballI impI)
      fix q assume q: "q \<in> set ps" and ni: "getProperty ex (fst q) \<noteq> Inherited"
      from q have "fst q \<in> fst ` set ps" by (rule imageI)
      moreover from Cons.prems(3) have "fst p \<notin> fst ` set ps" by simp
      ultimately have "fst q \<noteq> fst p" by metis
      moreover from q ni Cons.prems(4) have "upToDate ev ex (scoreDocs w) (fst q)" by simp
      ultimately show "upToDate ev ex (scoreDocs w') (fst q)" using keeps by blast
    qed
    moreover from Cons.prems(3) have "distinct (map fst ps)" by simp
    ultimately have "distinct (map fst (scoreDocs (fst (saveAll en ev scores ex ps w')))) \<and>
         distinct (map pairKey (scoreDocs (fst (saveAll en ev scores ex ps w'))))"
      using keeps by (intro Cons.IH) simp_all
    with Inr show ?thesis by simp
  qed
qed

lemma handleSubmit_keeps:
  assumes "distinct (map fst (scoreDocs w))" "distinct (map pairKey (scoreDocs w))"
    and "distinct (map fst participants)"
  shows "distinct (map fst (scoreDocs (fst (handleSubmit en ready ev participants scores
            (currentExistingScores (eventScoreDocs ev w)) w)))) \<and>
         distinct (map pairKey (scoreDocs (fst (handleSubmit en ready ev participants scores
            (currentExistingScores (eventScoreDocs ev w)) w))))"
proof (cases ready)
  case False
  with assms show ?thesis by (simp add: handleSubmit_def)
next
  case True
  let ?ex = "currentExistingScores (eventScoreDocs ev w)"
  have "\<forall>p \<in> set participants.
      getProperty ?ex (fst p) \<noteq> Inherited \<longrightarrow> upToDate ev ?ex (scoreDocs w) (fst p)"
    by (simp add: listener_upToDate)
  from saveAll_keeps [OF assms this, of en scores]
  have "distinct (map fst (scoreDocs (fst (saveAll en ev scores ?ex participants w)))) \<and>
      distinct (map pairKey (scoreDocs (fst (saveAll en ev scores ?ex participants w))))" .
  moreover have "fst (handleSubmit en ready ev participants scores ?ex w) =
      fst (saveAll en ev scores ?ex participants w)"
    using True by (simp add: handleSubmit_def split: prod.splits option.splits)
  ultimately show ?thesis by simp
qed

subsection \<open>One pass of the loop\<close>

lemma handleSubmit_pass:
  "saveParticipantScore en ev scores ex (fst participant) w = Inr w' \<Longrightarrow>
     handleSubmit en True ev (participant # rest) scores ex w =
     handleSubmit en True ev rest scores ex w'"
  by (simp add: handleSubmit_def)

text \<open>With a current view, the form knows the document of the pair, or that there is none.\<close>

lemma view_of_document:
  assumes pairs: "distinct (map pairKey (scoreDocs w))"
    and view: "upToDate ev ex (scoreDocs w) pid"
    and doc: "(sid, old) \<in> set (scoreDocs w)" "eventId old = ev" "participantId old = pid"
  shows "getProperty ex pid = Own sid"
proof (cases "getProperty ex pid")
  case Undefined
  with view have "(ev, pid) \<notin> set (map pairKey (scoreDocs w))"
    by (simp add: upToDate_Undefined)
  moreover from doc have "pairKey (sid, old) = (ev, pid)" by (simp add: pairKey_def)
  ultimately show ?thesis using doc(1) by (metis image_eqI set_map)
next
  case (Own sid')
  with view obtain d where d: "d \<in> set (scoreDocs w)" "fst d = sid'" "pairKey d = (ev, pid)"
    by (auto simp: upToDate_Own)
  from doc have "pairKey (sid, old) = (ev, pid)" by (simp add: pairKey_def)
  with d(3) have "pairKey d = pairKey (sid, old)" by simp
  with pairs d(1) doc(1) have "d = (sid, old)"
    by (simp add: distinct_map inj_on_def)
  with d(2) Own show ?thesis by simp
next
  case Inherited
  with view show ?thesis by (simp add: upToDate_Inherited)
qed

lemma view_without_document:
  assumes view: "upToDate ev ex (scoreDocs w) pid"
    and none: "(ev, pid) \<notin> set (map pairKey (scoreDocs w))"
  shows "getProperty ex pid = Undefined"
proof (cases "getProperty ex pid")
  case Undefined
  then show ?thesis .
next
  case (Own sid)
  with view obtain d where "d \<in> set (scoreDocs w)" "pairKey d = (ev, pid)"
    by (auto simp: upToDate_Own)
  then have "(ev, pid) \<in> set (map pairKey (scoreDocs w))" by (metis image_eqI set_map)
  with none show ?thesis by simp
next
  case Inherited
  with view show ?thesis by (simp add: upToDate_Inherited)
qed

lemma parseFloat_examples:
  "parseFloat ''12.5'' = Num (25 / 2)" "parseFloat ''7'' = Num 7" "parseFloat ''3'' = Num 3"
  "parseFloat ''10'' = Num 10" "parseFloat ''12'' = Num 12"
  by code_simp+

text \<open>
  Claim C2, for a form whose view of the pair is current. \<^verbatim>\<open>handleSubmit\<close>, at the
  participant \<open>pid\<close> of its list, when the form's \<^verbatim>\<open>existingScores\<close> is up to date for the
  pair, the store holds at most one score for each pair and rejects nothing: with a
  non-empty candidate \<open>v\<close> of the unsigned decimal pattern and no score for the pair, it
  adds one document, with the score \<^verbatim>\<open>parseFloat(v)\<close>, and goes on with the rest of the list;
  with such a candidate and a score for the pair, it gives the document of that score,
  under its id, the new value and time, and no document is added or removed; with an empty
  or absent candidate and a score for the pair, it deletes that document; with an empty or
  absent candidate and no score for the pair, it leaves the store as it is.
\<close>

theorem score_save_creates_updates_deletes:
  assumes pairs: "atMostOnePerPair (scoreDocs w)"
    and ok: "\<forall>op. \<not> denied en op"
    and view: "upToDate ev existingScores (scoreDocs w) pid"
  shows
   "(v \<noteq> [] \<and> unsignedDecimal v \<and> getProperty scores pid = Own (Typed v) \<and>
     (ev, pid) \<notin> set (map pairKey (scoreDocs w)) \<and>
     idAt en (Suc (calls w)) \<notin> set (map fst (scoreDocs w)) \<longrightarrow>
       handleSubmit en True ev ((pid, pdata) # rest) scores existingScores w =
       handleSubmit en True ev rest scores existingScores
         (w\<lparr>calls := Suc (Suc (calls w)),
            scoreDocs := scoreDocs w @
              [(idAt en (Suc (calls w)),
                \<lparr>eventId = ev, participantId = pid, score = parseFloat v,
                 timestamp = dateAt en (calls w)\<rparr>)]\<rparr>)) \<and>
    (v \<noteq> [] \<and> unsignedDecimal v \<and> getProperty scores pid = Own (Typed v) \<and>
     (sid, old) \<in> set (scoreDocs w) \<and> eventId old = ev \<and> participantId old = pid \<longrightarrow>
       handleSubmit en True ev ((pid, pdata) # rest) scores existingScores w =
       handleSubmit en True ev rest scores existingScores
         (w\<lparr>calls := Suc (calls w),
            scoreDocs :=
              map (\<lambda>e. if fst e = sid
                        then (sid, \<lparr>eventId = ev, participantId = pid, score = parseFloat v,
                                    timestamp = dateAt en (calls w)\<rparr>)
                        else e) (scoreDocs w)\<rparr>)) \<and>
    ((getProperty scores pid = Own (Typed []) \<or> getProperty scores pid = Undefined) \<and>
     (sid, old) \<in> set (scoreDocs w) \<and> eventId old = ev \<and> participantId old = pid \<longrightarrow>
       handleSubmit en True ev ((pid, pdata) # rest) scores existingScores w =
       handleSubmit en True ev rest scores existingScores
         (w\<lparr>scoreDocs := filter (\<lambda>d. fst d \<noteq> sid) (scoreDocs w)\<rparr>)) \<and>
    ((getProperty scores pid = Own (Typed []) \<or> getProperty scores pid = Undefined) \<and>
     (ev, pid) \<notin> set (map pairKey (scoreDocs w)) \<longrightarrow>
       handleSubmit en True ev ((pid, pdata) # rest) scores existingScores w =
       handleSubmit en True ev rest scores existingScores w)"
proof -
  from pairs have dp: "distinct (map pairKey (scoreDocs w))" by (simp add: atMostOnePerPair_def)
  let ?new = "\<lparr>eventId = ev, participantId = pid, score = parseFloat v,
      timestamp = dateAt en (calls w)\<rparr>"
  have none: "getProperty existingScores pid = Undefined"
    if "(ev, pid) \<notin> set (map pairKey (scoreDocs w))"
    using view that by (rule view_without_document)
  have some: "getProperty existingScores pid = Own sid"
    if "(sid, old) \<in> set (scoreDocs w)" "eventId old = ev" "participantId old = pid"
    using dp view that by (rule view_of_document)
  have create: "saveParticipantScore en ev scores existingScores pid w =
         Inr (w\<lparr>calls := Suc (Suc (calls w)),
                scoreDocs := scoreDocs w @ [(idAt en (Suc (calls w)), ?new)]\<rparr>)"
    if "v \<noteq> []" "getProperty scores pid = Own (Typed v)"
      "(ev, pid) \<notin> set (map pairKey (scoreDocs w))"
      "idAt en (Suc (calls w)) \<notin> set (map fst (scoreDocs w))"
    using that none [OF that(3)] ok
    by (simp add: saveParticipantScore_def newDate_def addScoreDoc_def)
  have update: "saveParticipantScore en ev scores existingScores pid w =
        Inr (w\<lparr>calls := Suc (calls w),
               scoreDocs := map (\<lambda>e. if fst e = sid then (sid, ?new) else e) (scoreDocs w)\<rparr>)"
    if "v \<noteq> []" "getProperty scores pid = Own (Typed v)"
      "(sid, old) \<in> set (scoreDocs w)" "eventId old = ev" "participantId old = pid"
  proof -
    from that(3) have "sid \<in> fst ` set (scoreDocs w)" by force
    with that(1,2) some [OF that(3-5)] ok show ?thesis
      by (simp add: saveParticipantScore_def newDate_def updateScoreDoc_def)
  qed
  have delete: "saveParticipantScore en ev scores existingScores pid w =
         Inr (w\<lparr>scoreDocs := filter (\<lambda>d. fst d \<noteq> sid) (scoreDocs w)\<rparr>)"
    if "getProperty scores pid = Own (Typed []) \<or> getProperty scores pid = Undefined"
      "(sid, old) \<in> set (scoreDocs w)" "eventId old = ev" "participantId old = pid"
    using that(1) some [OF that(2-4)] ok
    by (auto simp: saveParticipantScore_def deleteScoreDoc_def)
  have noop: "saveParticipantScore en ev scores existingScores pid w = Inr w"
    if "getProperty scores pid = Own (Typed []) \<or> getProperty scores pid = Undefined"
      "(ev, pid) \<notin> set (map pairKey (scoreDocs w))"
    using that(1) none [OF that(2)]
    by (auto simp: saveParticipantScore_def)
  show ?thesis
  proof (intro conjI impI)
    assume a: "v \<noteq> [] \<and> unsignedDecimal v \<and> getProperty scores pid = Own (Typed v) \<and>
      (ev, pid) \<notin> set (map pairKey (scoreDocs w)) \<and>
      idAt en (Suc (calls w)) \<notin> set (map fst (scoreDocs w))"
    have "saveParticipantScore en ev scores existingScores (fst (pid, pdata)) w =
         Inr (w\<lparr>calls := Suc (Suc (calls w)),
                scoreDocs := scoreDocs w @ [(idAt en (Suc (calls w)), ?new)]\<rparr>)"
      using a by (simp only: fst_conv) (intro create, simp_all)
    then show "handleSubmit en True ev ((pid, pdata) # rest) scores existingScores w =
       handleSubmit en True ev rest scores existingScores
         (w\<lparr>calls := Suc (Suc (calls w)),
            scoreDocs := scoreDocs w @ [(idAt en (Suc (calls w)), ?new)]\<rparr>)"
      by (rule handleSubmit_pass)
  next
    assume a: "v \<noteq> [] \<and> unsignedDecimal v \<and> getProperty scores pid = Own (Typed v) \<and>
      (sid, old) \<in> set (scoreDocs w) \<and> eventId old = ev \<and> participantId old = pid"
    have "saveParticipantScore en ev scores existingScores (fst (pid, pdata)) w =
        Inr (w\<lparr>calls := Suc (calls w),
               scoreDocs := map (\<lambda>e. if fst e = sid then (sid, ?new) else e) (scoreDocs w)\<rparr>)"
      using a by (simp only: fst_conv) (intro update, simp_all)
    then show "handleSubmit en True ev ((pid, pdata) # rest) scores existingScores w =
       handleSubmit en True ev rest scores existingScores
         (w\<lparr>calls := Suc (calls w),
            scoreDocs := map (\<lambda>e. if fst e = sid then (sid, ?new) else e) (scoreDocs w)\<rparr>)"
      by (rule handleSubmit_pass)
  next
    assume a: "(getProperty scores pid = Own (Typed []) \<or> getProperty scores pid = Undefined) \<and>
      (sid, old) \<in> set (scoreDocs w) \<and> eventId old = ev \<and> participantId old = pid"
    have "saveParticipantScore en ev scores existingScores (fst (pid, pdata)) w =
         Inr (w\<lparr>scoreDocs := filter (\<lambda>d. fst d \<noteq> sid) (scoreDocs w)\<rparr>)"
      using a by (simp only: fst_conv) (intro delete, simp_all)
    then show "handleSubmit en True ev ((pid, pdata) # rest) scores existingScores w =
       handleSubmit en True ev rest scores existingScores
         (w\<lparr>scoreDocs := filter (\<lambda>d. fst d \<noteq> sid) (scoreDocs w)\<rparr>)"
      by (rule handleSubmit_pass)
  next
    assume a: "(getProperty scores pid = Own (Typed []) \<or> getProperty scores pid = Undefined) \<and>
      (ev, pid) \<notin> set (map pairKey (scoreDocs w))"
    have "saveParticipantScore en ev scores existingScores (fst (pid, pdata)) w = Inr w"
      using a by (simp only: fst_conv) (intro noop, simp_all)
    then show "handleSubmit en True ev ((pid, pdata) # rest) scores existingScores w =
       handleSubmit en True ev rest scores existingScores w"
      by (rule handleSubmit_pass)
  qed
qed

theorem score_save_creates_updates_deletes_witness:
  "atMostOnePerPair (scoreDocs demoWorld) \<and>
   upToDate ''E1'' (currentExistingScores (eventScoreDocs ''E1'' demoWorld))
     (scoreDocs demoWorld) ''P1'' \<and>
   upToDate ''E1'' (currentExistingScores (eventScoreDocs ''E1'' demoWorld))
     (scoreDocs demoWorld) ''P2'' \<and>
   unsignedDecimal ''12.5'' \<and> (''E1'', ''P2'') \<notin> set (map pairKey (scoreDocs demoWorld)) \<and>
   handleSubmit demoEnv True ''E1'' [(''P2'', \<lparr>name = ''Bob'', house = ''Blue''\<rparr>)]
       (Map.empty(''P2'' \<mapsto> Typed ''12.5''))
       (currentExistingScores (eventScoreDocs ''E1'' demoWorld)) demoWorld =
     (demoWorld\<lparr>calls := 2, scoreDocs := scoreDocs demoWorld @
       [(''autox'', \<lparr>eventId = ''E1'', participantId = ''P2'', score = Num (25 / 2),
          timestamp = 1000\<rparr>)]\<rparr>, None) \<and>
   handleSubmit demoEnv True ''E1'' [(''P1'', \<lparr>name = ''Alice'', house = ''Red''\<rparr>)]
       (Map.empty(''P1'' \<mapsto> Typed ''7''))
       (currentExistingScores (eventScoreDocs ''E1'' demoWorld)) demoWorld =
     (demoWorld\<lparr>calls := 1, scoreDocs :=
       [(''s1'', \<lparr>eventId = ''E1'', participantId = ''P1'', score = Num 7, timestamp = 1000\<rparr>)]\<rparr>,
      None) \<and>
   handleSubmit demoEnv True ''E1'' [(''P1'', \<lparr>name = ''Alice'', house = ''Red''\<rparr>)]
       (Map.empty(''P1'' \<mapsto> Typed []))
       (currentExistingScores (eventScoreDocs ''E1'' demoWorld)) demoWorld =
     (demoWorld\<lparr>scoreDocs := []\<rparr>, None) \<and>
   handleSubmit demoEnv True ''E1'' [(''P2'', \<lparr>name = ''Bob'', house = ''Blue''\<rparr>)]
       Map.empty
       (currentExistingScores (eventScoreDocs ''E1'' demoWorld)) demoWorld =
     (demoWorld, None)"
  using score_save_creates_updates_deletes
      [where w = demoWorld and en = demoEnv and ev = "''E1''" and pid = "''P2''"
         and existingScores = "currentExistingScores (eventScoreDocs ''E1'' demoWorld)"
         and v = "''12.5''" and scores = "Map.empty(''P2'' \<mapsto> Typed ''12.5'')"
         and pdata = "\<lparr>name = ''Bob'', house = ''Blue''\<rparr>" and rest = "[]"]
    score_save_creates_updates_deletes
      [where w = demoWorld and en = demoEnv and ev = "''E1''" and pid = "''P1''"
         and existingScores = "currentExistingScores (eventScoreDocs ''E1'' demoWorld)"
         and v = "''7''" and scores = "Map.empty(''P1'' \<mapsto> Typed ''7'')" and sid = "''s1''"
         and old = "\<lparr>eventId = ''E1'', participantId = ''P1'', score = Num 10, timestamp = 900\<rparr>"
         and pdata = "\<lparr>name = ''Alice'', house = ''Red''\<rparr>" and rest = "[]"]
  by (simp add: demoWorld_def demoEnv_def atMostOnePerPair_def pairKey_def unsignedDecimal_def
      isDigit_def handleSubmit_def saveParticipantScore_def currentExistingScores_def
      setProperty_def getProperty_def objectPrototypeNames_def upToDate_def eventScoreDocs_def
      newDate_def addScoreDoc_def updateScoreDoc_def deleteScoreDoc_def parseFloat_examples)

text \<open>
  Without the hypothesis on the view the claim fails. Here the store holds a score for E1
  and P1, and the form still has the \<^verbatim>\<open>existingScores\<close> that its listener built before that
  score was written: the save of 12.5 for P1 leaves the record as it is and adds a second
  one.
\<close>

theorem stale_view_appends_second_record:
  "handleSubmit demoEnv True ''E1'' [(''P1'', \<lparr>name = ''Alice'', house = ''Red''\<rparr>)]
       (Map.empty(''P1'' \<mapsto> Typed ''12.5''))
       (currentExistingScores (eventScoreDocs ''E1'' (demoWorld\<lparr>scoreDocs := []\<rparr>)))
       demoWorld =
     (demoWorld\<lparr>calls := 2, scoreDocs :=
       [(''s1'', \<lparr>eventId = ''E1'', participantId = ''P1'', score = Num 10, timestamp = 900\<rparr>),
        (''autox'', \<lparr>eventId = ''E1'', participantId = ''P1'', score = Num (25 / 2),
           timestamp = 1000\<rparr>)]\<rparr>,
      None)"
  by (simp add: demoWorld_def demoEnv_def handleSubmit_def saveParticipantScore_def
      currentExistingScores_def setProperty_def getProperty_def objectPrototypeNames_def
      eventScoreDocs_def newDate_def addScoreDoc_def parseFloat_examples)

text \<open>
  The other way round, a form that still lists a document that has been deleted since
  does not create the score: the update is rejected and the form shows the failure.
\<close>

lemma stale_view_update_fails:
  "handleSubmit demoEnv True ''E1'' [(''P1'', \<lparr>name = ''Alice'', house = ''Red''\<rparr>)]
       (Map.empty(''P1'' \<mapsto> Typed ''7''))
       (currentExistingScores (eventScoreDocs ''E1'' demoWorld))
       (demoWorld\<lparr>scoreDocs := []\<rparr>) =
     (demoWorld\<lparr>scoreDocs := []\<rparr>, Some (Failure ''Failed to save scores: '' NotFound))"
  by (simp add: demoWorld_def demoEnv_def handleSubmit_def saveParticipantScore_def
      currentExistingScores_def setProperty_def getProperty_def objectPrototypeNames_def
      eventScoreDocs_def newDate_def updateScoreDoc_def parseFloat_examples)

text \<open>A point alone, which the input filter lets through, is saved as \<^verbatim>\<open>NaN\<close>.\<close>

lemma point_is_saved_as_NaN:
  "scoreDocs (fst (handleSubmit demoEnv True ''E1'' [(''P2'', \<lparr>name = ''Bob'', house = ''Blue''\<rparr>)]
       (handleScoreChange Map.empty ''P2'' ''.'')
       (currentExistingScores (eventScoreDocs ''E1'' demoWorld)) demoWorld)) =
     scoreDocs demoWorld @
       [(''autox'', \<lparr>eventId = ''E1'', participantId = ''P2'', score = NaN, timestamp = 1000\<rparr>)]"
  by (simp add: demoWorld_def demoEnv_def handleSubmit_def saveParticipantScore_def
      handleScoreChange_def scoreRegex_def Opt_def isDigit_def
      currentExistingScores_def setProperty_def getProperty_def objectPrototypeNames_def
      eventScoreDocs_def newDate_def addScoreDoc_def parseFloat_def)

text \<open>
  For a participant whose id is the name of a property of \<^verbatim>\<open>Object.prototype\<close> the lookups
  give the inherited property, and the save fails before it reaches the store.
\<close>

lemma inherited_id_is_refused:
  "handleSubmit demoEnv True ''E1'' [(''constructor'', \<lparr>name = ''Carol'', house = ''Red''\<rparr>)]
       (Map.empty(''constructor'' \<mapsto> Typed ''7''))
       (currentExistingScores (eventScoreDocs ''E1'' demoWorld)) demoWorld =
     (demoWorld, Some (Failure ''Failed to save scores: '' InvalidArgument))"
  by (simp add: demoWorld_def demoEnv_def handleSubmit_def saveParticipantScore_def
      currentExistingScores_def setProperty_def getProperty_def objectPrototypeNames_def
      eventScoreDocs_def newDate_def parseFloat_examples)


section \<open>The stopwatch\<close>

text \<open>A commit changes the refs and the timers only.\<close>

lemma commit_fields:
  "isRunning (commit now s) = isRunning s"
  "elapsedTime (commit now s) = elapsedTime s"
  "laps (commit now s) = laps s"
  by (simp_all add: commit_def samplingEffect_def samplingCleanup_def clearInterval_def
      setIntervalRef_def Let_def split: option.splits)

text \<open>
  Claim C7. Lap while the timer is not running changes nothing: neither the elapsed time
  nor the lap list. Lap while it is running puts the current elapsed time at the end of the
  lap list, the earlier laps staying a prefix. Reset, from any state, sets the elapsed time
  to 0, empties the lap list and leaves the timer not running.
\<close>

theorem lap_and_reset:
  "(\<not> isRunning s \<longrightarrow>
      lapStopwatch s = s \<and>
      elapsedTime (step s (now, Lap)) = elapsedTime s \<and> laps (step s (now, Lap)) = laps s) \<and>
   (isRunning s \<longrightarrow>
      laps (step s (now, Lap)) = laps s @ [elapsedTime s] \<and>
      elapsedTime (step s (now, Lap)) = elapsedTime s) \<and>
   elapsedTime (step s (now, Reset)) = 0 \<and> laps (step s (now, Reset)) = [] \<and>
   \<not> isRunning (step s (now, Reset))"
  by (simp add: step_def commit_fields lapStopwatch_def resetStopwatch_def)

theorem lap_and_reset_witness:
  "\<not> isRunning (run 0 [(5, Start), (15, Tick 1), (20, Lap), (30, Stop)]) \<and>
   laps (step (run 0 [(5, Start), (15, Tick 1), (20, Lap), (30, Stop)]) (40, Lap)) = [10] \<and>
   isRunning (run 0 [(5, Start), (15, Tick 1), (20, Lap)]) \<and>
   laps (step (run 0 [(5, Start), (15, Tick 1), (20, Lap)]) (40, Lap)) = [10, 10] \<and>
   elapsedTime (step (run 0 [(5, Start), (15, Tick 1), (20, Lap)]) (40, Reset)) = 0 \<and>
   laps (step (run 0 [(5, Start), (15, Tick 1), (20, Lap)]) (40, Reset)) = []"
  using lap_and_reset [of "run 0 [(5, Start), (15, Tick 1), (20, Lap), (30, Stop)]" 40]
    lap_and_reset [of "run 0 [(5, Start), (15, Tick 1), (20, Lap)]" 40]
  by (simp add: run_def mount_def step_def commit_def initialStopwatch_def samplingEffect_def
      samplingCleanup_def clearInterval_def setIntervalRef_def startStopwatch_def
      stopStopwatch_def lapStopwatch_def sample_def)

subsection \<open>The sampling interval\<close>

lemma commit_same: "effectDeps s = Some (isRunning s, elapsedTime s) \<Longrightarrow> commit now s = s"
  by (simp add: commit_def)

lemma commit_changed:
  assumes "effectDeps s = Some d" "d \<noteq> (isRunning s, elapsedTime s)"
    and "timers s = [] \<or> (\<exists>t. intervalRef s = Some t \<and> timers s = [t])"
  shows "synced (commit now s)"
proof (cases "isRunning s")
  case True
  with assms show ?thesis
    by (auto simp: commit_def synced_def samplingEffect_def samplingCleanup_def
        clearInterval_def setIntervalRef_def split: option.splits)
next
  case False
  with assms show ?thesis
    by (auto simp: commit_def synced_def samplingEffect_def samplingCleanup_def
        clearInterval_def setIntervalRef_def split: option.splits)
qed

lemma synced_handler:
  assumes "synced s"
    and "effectDeps s' = effectDeps s" "timers s' = timers s" "intervalRef s' = intervalRef s"
  shows "synced (commit now s')"
proof (cases "(isRunning s', elapsedTime s') = (isRunning s, elapsedTime s)")
  case True
  with assms have "effectDeps s' = Some (isRunning s', elapsedTime s')"
    by (simp add: synced_def)
  then have "commit now s' = s'" by (rule commit_same)
  with True assms show ?thesis by (simp add: synced_def)
next
  case False
  from assms have "effectDeps s' = Some (isRunning s, elapsedTime s)"
    by (simp add: synced_def)
  moreover from False have "(isRunning s, elapsedTime s) \<noteq> (isRunning s', elapsedTime s')"
    by auto
  moreover from assms have "timers s' = [] \<or> (\<exists>t. intervalRef s' = Some t \<and> timers s' = [t])"
    by (auto simp: synced_def split: if_splits)
  ultimately show ?thesis by (rule commit_changed)
qed

lemma synced_step: "synced s \<Longrightarrow> synced (step s e)"
proof -
  assume s: "synced s"
  obtain now a where e: "e = (now, a)" by (cases e)
  have "synced (commit now (handler now a s))"
    by (rule synced_handler [OF s])
       (cases a; simp add: startStopwatch_def stopStopwatch_def resetStopwatch_def
          lapStopwatch_def sample_def)+
  with e show ?thesis by (simp add: step_def)
qed

lemma synced_mount: "synced (mount t0)"
  by (simp add: synced_def mount_def commit_def initialStopwatch_def samplingEffect_def
      clearInterval_def)

lemma synced_run: "synced (run t0 tr)"
  unfolding run_def
  by (induction tr rule: rev_induct) (simp_all add: synced_mount synced_step)

text \<open>
  Claim C9. In every state the stopwatch reaches, from its mount through any sequence of
  clicks and interval callbacks, an interval is live only if the timer is running; and the
  transition out of running, by Stop or by Reset, leaves no interval live.
\<close>

theorem interval_only_while_running:
  "(timers (run t0 tr) \<noteq> [] \<longrightarrow> isRunning (run t0 tr)) \<and>
   timers (step (run t0 tr) (now, Stop)) = [] \<and>
   timers (step (run t0 tr) (now', Reset)) = []"
proof -
  have a: "synced (run t0 tr)" by (rule synced_run)
  have b: "synced (step (run t0 tr) (now, Stop))" by (rule synced_step [OF a])
  have c: "synced (step (run t0 tr) (now', Reset))" by (rule synced_step [OF a])
  have d: "\<not> isRunning (step (run t0 tr) (now, Stop))"
    by (simp add: step_def stopStopwatch_def commit_fields)
  have e: "\<not> isRunning (step (run t0 tr) (now', Reset))"
    by (simp add: step_def resetStopwatch_def commit_fields)
  from a b c d e show ?thesis by (auto simp: synced_def split: if_splits)
qed

theorem interval_only_while_running_witness:
  "timers (run 0 [(5, Start), (15, Tick 1)]) = [2] \<and>
   isRunning (run 0 [(5, Start), (15, Tick 1)]) \<and>
   timers (step (run 0 [(5, Start), (15, Tick 1)]) (20, Stop)) = [] \<and>
   timers (step (run 0 [(5, Start), (15, Tick 1)]) (20, Reset)) = []"
  using interval_only_while_running [of 0 "[(5, Start), (15, Tick 1)]" 20 20]
  by (simp add: run_def mount_def step_def commit_def initialStopwatch_def samplingEffect_def
      samplingCleanup_def clearInterval_def setIntervalRef_def startStopwatch_def sample_def)

subsection \<open>Recording the time\<close>

lemma set_update_doc:
  "set (map (\<lambda>e. if fst e = i then (i, d) else e) docs) \<subseteq> insert (i, d) (set docs)"
  by auto

text \<open>
  A time that is not \<^verbatim>\<open>0\<close> is at least a millisecond, which division by 1000 and rounding
  do not take to \<^verbatim>\<open>0\<close>.
\<close>

lemma milli_on_grid:
  assumes "(1::rat) \<le> y"
  shows "1 \<le> y / 1000 * 2 ^ 1074"
proof -
  define g :: rat where "g = 2 ^ 1074"
  have "(1000::rat) \<le> 2 ^ 10" by simp
  also have "\<dots> \<le> 2 ^ 1074" by (rule power_increasing) simp_all
  finally have big: "1000 \<le> g" by (simp only: g_def)
  from assms big have "1 * 1000 \<le> y * g" by (intro mult_mono) simp_all
  then have "1 \<le> y / 1000 * g" by (simp add: divide_simps)
  then show ?thesis by (simp only: g_def)
qed

lemma scoreInSeconds_nonzero:
  assumes "ms \<noteq> 0"
  shows "scoreInSeconds ms \<noteq> Num 0"
proof -
  define x :: rat where "x = of_int ms / 1000"
  consider "0 < ms" | "ms < 0" using assms by linarith
  then show ?thesis
  proof cases
    case 1
    then have "(1::rat) \<le> of_int ms" by simp
    then have "1 \<le> x * 2 ^ 1074" unfolding x_def by (rule milli_on_grid)
    moreover from 1 have "0 < x" by (simp add: x_def)
    ultimately have "toDouble x = PInf \<or> (\<exists>v. toDouble x = Num v \<and> 0 < v)"
      by (intro toDouble_pos)
    then show ?thesis by (auto simp: scoreInSeconds_def x_def [symmetric])
  next
    case 2
    then have "(1::rat) \<le> of_int (- ms)" by simp
    then have "1 \<le> of_int (- ms) / 1000 * (2::rat) ^ 1074" by (rule milli_on_grid)
    also have "of_int (- ms) / 1000 * (2::rat) ^ 1074 = - x * 2 ^ 1074"
      by (simp only: x_def of_int_minus minus_divide_left)
    finally have "1 \<le> - x * 2 ^ 1074" .
    moreover from 2 have "x < 0" by (simp add: x_def)
    ultimately have "toDouble x = NInf \<or> (\<exists>v. toDouble x = Num v \<and> v < 0)"
      by (intro toDouble_neg)
    then show ?thesis by (auto simp: scoreInSeconds_def x_def [symmetric])
  qed
qed

lemma scoreInSeconds_examples:
  "scoreInSeconds 500 = Num (1 / 2)"
  "scoreInSeconds 12340 = Num (3473401212609495 / 2 ^ 48)"
  by code_simp+

lemma handleSaveScore_refused:
  "selectedEvent s = [] \<or> selectedParticipant s = [] \<or> elapsedTime s = 0 \<or> \<not> ready \<or>
     denied en (GetDocs Scores) \<Longrightarrow> fst (handleSaveScore en ready s w) = w"
  by (auto simp: handleSaveScore_def saveQuery_def saveWrite_def getScoreDocs_def)

lemma handleSaveScore_written:
  assumes "d \<in> set (scoreDocs (fst (handleSaveScore en ready s w)))" "d \<notin> set (scoreDocs w)"
  shows "score (snd d) = scoreInSeconds (elapsedTime s) \<and> elapsedTime s \<noteq> 0"
proof (cases "selectedEvent s = [] \<or> selectedParticipant s = [] \<or> elapsedTime s = 0 \<or> \<not> ready \<or>
    denied en (GetDocs Scores)")
  case True
  then have "fst (handleSaveScore en ready s w) = w" by (rule handleSaveScore_refused)
  with assms show ?thesis by simp
next
  case False
  let ?data = "\<lparr>eventId = selectedEvent s, participantId = selectedParticipant s,
      score = scoreInSeconds (elapsedTime s), timestamp = dateAt en (calls w)\<rparr>"
  have "d = (fst d, ?data)"
  proof (cases "filter (\<lambda>d. eventId (snd d) = selectedEvent s \<and>
        participantId (snd d) = selectedParticipant s) (scoreDocs w)")
    case Nil
    with False assms show ?thesis
      by (auto simp: handleSaveScore_def saveQuery_def saveWrite_def getScoreDocs_def newDate_def addScoreDoc_def Let_def
          split: if_splits)
  next
    case (Cons doc0 others)
    with False assms show ?thesis
      using set_update_doc [of "fst doc0" ?data "scoreDocs w"]
      by (auto simp: handleSaveScore_def saveQuery_def saveWrite_def getScoreDocs_def newDate_def updateScoreDoc_def
          split: if_splits)
  qed
  then have "snd d = ?data" by (metis snd_conv)
  with False show ?thesis by simp
qed

text \<open>
  Claim C10. Without a selected event, without a selected participant, or with an elapsed
  time of 0, saving leaves the store as it is and only sets the message that says why.
  Whatever the state of the stopwatch, a score document that the save wrote holds the
  elapsed time in seconds and that is not 0.
\<close>

theorem save_refused_without_selection_or_time:
  "(selectedEvent s = [] \<or> selectedParticipant s = [] \<longrightarrow>
      handleSaveScore en ready s w =
        (w, s\<lparr>saveMessage := Message ''Please select both an event and a participant.''\<rparr>)) \<and>
   (selectedEvent s \<noteq> [] \<and> selectedParticipant s \<noteq> [] \<and> elapsedTime s = 0 \<longrightarrow>
      handleSaveScore en ready s w =
        (w, s\<lparr>saveMessage := Message ''Stopwatch time is 0. Please run the stopwatch first.''\<rparr>)) \<and>
   (\<forall>d \<in> set (scoreDocs (fst (handleSaveScore en ready s w))).
      d \<notin> set (scoreDocs w) \<longrightarrow>
      score (snd d) = scoreInSeconds (elapsedTime s) \<and> score (snd d) \<noteq> Num 0)"
proof -
  have "score (snd d) = scoreInSeconds (elapsedTime s) \<and> score (snd d) \<noteq> Num 0"
    if "d \<in> set (scoreDocs (fst (handleSaveScore en ready s w)))" "d \<notin> set (scoreDocs w)" for d
    using handleSaveScore_written [OF that] by (simp add: scoreInSeconds_nonzero)
  then have written: "\<forall>d \<in> set (scoreDocs (fst (handleSaveScore en ready s w))).
      d \<notin> set (scoreDocs w) \<longrightarrow>
      score (snd d) = scoreInSeconds (elapsedTime s) \<and> score (snd d) \<noteq> Num 0"
    by blast
  have refused: "selectedEvent s = [] \<or> selectedParticipant s = [] \<longrightarrow>
      handleSaveScore en ready s w =
        (w, s\<lparr>saveMessage := Message ''Please select both an event and a participant.''\<rparr>)"
    "selectedEvent s \<noteq> [] \<and> selectedParticipant s \<noteq> [] \<and> elapsedTime s = 0 \<longrightarrow>
      handleSaveScore en ready s w =
        (w, s\<lparr>saveMessage := Message ''Stopwatch time is 0. Please run the stopwatch first.''\<rparr>)"
    by (simp_all add: handleSaveScore_def)
  from refused written show ?thesis by blast
qed

theorem save_refused_without_selection_or_time_witness:
  "selectedEvent (initialStopwatch\<lparr>elapsedTime := 500\<rparr>) = [] \<and>
   fst (handleSaveScore demoEnv True (initialStopwatch\<lparr>elapsedTime := 500\<rparr>) demoWorld) = demoWorld \<and>
   elapsedTime (initialStopwatch\<lparr>selectedEvent := ''E1'', selectedParticipant := ''P2''\<rparr>) = 0 \<and>
   fst (handleSaveScore demoEnv True
      (initialStopwatch\<lparr>selectedEvent := ''E1'', selectedParticipant := ''P2''\<rparr>) demoWorld) = demoWorld \<and>
   scoreDocs (fst (handleSaveScore demoEnv True
      (initialStopwatch\<lparr>selectedEvent := ''E1'', selectedParticipant := ''P2'', elapsedTime := 500\<rparr>)
      demoWorld)) =
     scoreDocs demoWorld @
     [(''autox'', \<lparr>eventId = ''E1'', participantId = ''P2'', score = Num (1 / 2), timestamp = 1000\<rparr>)]"
  using save_refused_without_selection_or_time
      [of "initialStopwatch\<lparr>elapsedTime := 500\<rparr>" demoEnv True demoWorld]
    save_refused_without_selection_or_time
      [of "initialStopwatch\<lparr>selectedEvent := ''E1'', selectedParticipant := ''P2''\<rparr>"
        demoEnv True demoWorld]
    save_refused_without_selection_or_time
      [of "initialStopwatch\<lparr>selectedEvent := ''E1'', selectedParticipant := ''P2'', elapsedTime := 500\<rparr>"
        demoEnv True demoWorld]
  by (simp add: initialStopwatch_def handleSaveScore_def saveQuery_def saveWrite_def
      demoEnv_def demoWorld_def getScoreDocs_def newDate_def addScoreDoc_def scoreInSeconds_examples)

lemma map_of_snoc_fresh:
  "i \<notin> fst ` set docs \<Longrightarrow> map_of (docs @ [(i, d)]) j = (if j = i then Some d else map_of docs j)"
  by (induction docs) auto

text \<open>
  Claim C8, for a save that starts when the one before it has finished. Saving the time of
  the stopwatch writes the elapsed milliseconds divided by 1000 as the score of the
  selected event and participant, after looking the pair up. A second save for the same
  pair that starts after the first has written, with no other write in between, finds the
  document of the first and updates that document: the collection has the same document
  ids as after the first save, the document holds the new time, and every other document
  is as it was.
\<close>

theorem stopwatch_save_twice_updates_in_place:
  assumes ids: "distinct (map fst (scoreDocs w))"
    and sel: "selectedEvent s \<noteq> []" "selectedParticipant s \<noteq> []" "elapsedTime s \<noteq> 0"
    and again: "selectedEvent s' = selectedEvent s" "selectedParticipant s' = selectedParticipant s"
      "elapsedTime s' \<noteq> 0"
    and ok: "\<forall>op. \<not> denied en op" "\<forall>op. \<not> denied en' op"
    and fresh: "idAt en (Suc (calls w)) \<notin> fst ` set (scoreDocs w)"
  shows "\<exists>sid.
     map_of (scoreDocs (fst (handleSaveScore en True s w))) sid =
       Some \<lparr>eventId = selectedEvent s, participantId = selectedParticipant s,
             score = scoreInSeconds (elapsedTime s), timestamp = dateAt en (calls w)\<rparr> \<and>
     map fst (scoreDocs (fst (handleSaveScore en' True s' (fst (handleSaveScore en True s w))))) =
       map fst (scoreDocs (fst (handleSaveScore en True s w))) \<and>
     map_of (scoreDocs (fst (handleSaveScore en' True s' (fst (handleSaveScore en True s w))))) sid =
       Some \<lparr>eventId = selectedEvent s, participantId = selectedParticipant s,
             score = scoreInSeconds (elapsedTime s'),
             timestamp = dateAt en' (calls (fst (handleSaveScore en True s w)))\<rparr> \<and>
     (\<forall>i. i \<noteq> sid \<longrightarrow>
        map_of (scoreDocs (fst (handleSaveScore en' True s' (fst (handleSaveScore en True s w))))) i =
        map_of (scoreDocs (fst (handleSaveScore en True s w))) i) \<and>
     saveMessage (snd (handleSaveScore en' True s' (fst (handleSaveScore en True s w)))) =
       Message ''Score updated successfully!''"
proof -
  let ?P = "\<lambda>d. eventId d = selectedEvent s \<and> participantId d = selectedParticipant s"
  let ?data = "\<lparr>eventId = selectedEvent s, participantId = selectedParticipant s,
      score = scoreInSeconds (elapsedTime s), timestamp = dateAt en (calls w)\<rparr>"
  let ?w1 = "fst (handleSaveScore en True s w)"
  let ?data' = "\<lparr>eventId = selectedEvent s, participantId = selectedParticipant s,
      score = scoreInSeconds (elapsedTime s'), timestamp = dateAt en' (calls ?w1)\<rparr>"
  have first: "\<exists>sid rest. scoreDocs ?w1 \<noteq> [] \<and>
      filter (\<lambda>d. ?P (snd d)) (scoreDocs ?w1) = (sid, ?data) # rest \<and>
      map_of (scoreDocs ?w1) sid = Some ?data"
  proof (cases "filter (\<lambda>d. ?P (snd d)) (scoreDocs w)")
    case Nil
    let ?i = "idAt en (Suc (calls w))"
    from Nil sel ok(1) fresh have "scoreDocs ?w1 = scoreDocs w @ [(?i, ?data)]"
      by (simp add: handleSaveScore_def saveQuery_def saveWrite_def getScoreDocs_def
          newDate_def addScoreDoc_def)
    with Nil fresh show ?thesis by (simp add: map_of_snoc_fresh del: map_of_append)
  next
    case (Cons doc0 others)
    obtain sid old where doc0: "doc0 = (sid, old)" by (cases doc0)
    have "doc0 \<in> set (filter (\<lambda>d. ?P (snd d)) (scoreDocs w))" using Cons by simp
    with doc0 have mem: "(sid, old) \<in> set (scoreDocs w)" and old: "?P old" by simp_all
    from mem have sidin: "sid \<in> fst ` set (scoreDocs w)" by force
    let ?upd = "\<lambda>e. if fst e = sid then (sid, ?data) else e"
    from Cons doc0 sel ok(1) sidin have w1: "scoreDocs ?w1 = map ?upd (scoreDocs w)"
      by (simp add: handleSaveScore_def saveQuery_def saveWrite_def getScoreDocs_def
          newDate_def updateScoreDoc_def)
    have "filter (\<lambda>d. ?P (snd d)) (map ?upd (scoreDocs w)) =
        map ?upd (filter (\<lambda>d. ?P (snd d)) (scoreDocs w))"
      using filter_update_doc [of "scoreDocs w" sid old ?P ?data] ids mem old by simp
    with Cons doc0 have "filter (\<lambda>d. ?P (snd d)) (scoreDocs ?w1) = (sid, ?data) # map ?upd others"
      by (simp add: w1)
    moreover have "map_of (scoreDocs ?w1) sid = Some ?data"
      using sidin by (simp add: w1 map_of_update_doc)
    moreover from mem have "scoreDocs ?w1 \<noteq> []" by (auto simp: w1)
    ultimately show ?thesis by blast
  qed
  then obtain sid rest where f: "filter (\<lambda>d. ?P (snd d)) (scoreDocs ?w1) = (sid, ?data) # rest"
    and m: "map_of (scoreDocs ?w1) sid = Some ?data"
    by blast
  from m have sidin: "sid \<in> fst ` set (scoreDocs ?w1)"
    by (metis domI dom_map_of_conv_image_fst)
  let ?upd' = "\<lambda>e. if fst e = sid then (sid, ?data') else e"
  from f sel again ok(2) sidin
  have second: "handleSaveScore en' True s' ?w1 =
      (?w1\<lparr>calls := Suc (calls ?w1), scoreDocs := map ?upd' (scoreDocs ?w1)\<rparr>,
       s'\<lparr>saveMessage := Message ''Score updated successfully!''\<rparr>)"
    by (simp add: handleSaveScore_def [of en' True s'] saveQuery_def saveWrite_def
        getScoreDocs_def newDate_def updateScoreDoc_def)
  have "map_of (scoreDocs ?w1) sid = Some ?data \<and>
     map fst (scoreDocs (fst (handleSaveScore en' True s' ?w1))) = map fst (scoreDocs ?w1) \<and>
     map_of (scoreDocs (fst (handleSaveScore en' True s' ?w1))) sid = Some ?data' \<and>
     (\<forall>i. i \<noteq> sid \<longrightarrow>
        map_of (scoreDocs (fst (handleSaveScore en' True s' ?w1))) i = map_of (scoreDocs ?w1) i) \<and>
     saveMessage (snd (handleSaveScore en' True s' ?w1)) = Message ''Score updated successfully!''"
    unfolding second using m sidin
    by (simp add: map_of_update_doc map_fst_update_doc del: map_map)
  then show ?thesis by blast
qed

theorem stopwatch_save_twice_updates_in_place_witness:
  "distinct (map fst (scoreDocs demoWorld)) \<and>
   scoreDocs (fst (handleSaveScore demoEnv True
      (initialStopwatch\<lparr>selectedEvent := ''E1'', selectedParticipant := ''P2'', elapsedTime := 12340\<rparr>)
      demoWorld)) =
     scoreDocs demoWorld @
     [(''autox'', \<lparr>eventId = ''E1'', participantId = ''P2'', score = Num (3473401212609495 / 2 ^ 48), timestamp = 1000\<rparr>)] \<and>
   scoreDocs (fst (handleSaveScore demoEnv True
      (initialStopwatch\<lparr>selectedEvent := ''E1'', selectedParticipant := ''P2'', elapsedTime := 500\<rparr>)
      (fst (handleSaveScore demoEnv True
        (initialStopwatch\<lparr>selectedEvent := ''E1'', selectedParticipant := ''P2'', elapsedTime := 12340\<rparr>)
        demoWorld)))) =
     scoreDocs demoWorld @
     [(''autox'', \<lparr>eventId = ''E1'', participantId = ''P2'', score = Num (1 / 2), timestamp = 1002\<rparr>)]"
  using stopwatch_save_twice_updates_in_place
    [of demoWorld
      "initialStopwatch\<lparr>selectedEvent := ''E1'', selectedParticipant := ''P2'', elapsedTime := 12340\<rparr>"
      "initialStopwatch\<lparr>selectedEvent := ''E1'', selectedParticipant := ''P2'', elapsedTime := 500\<rparr>"
      demoEnv demoEnv]
  by (simp add: initialStopwatch_def handleSaveScore_def saveQuery_def saveWrite_def
      demoEnv_def demoWorld_def getScoreDocs_def newDate_def addScoreDoc_def updateScoreDoc_def scoreInSeconds_examples)

text \<open>
  The restriction is needed. The handler is suspended between its query and its write, and
  the button stays enabled: when it is clicked twice and both queries are answered before
  either handler writes, both find no document for the pair and both add one.
\<close>

theorem two_saves_in_flight_add_two_records:
  "saveQuery demoEnv
      (initialStopwatch\<lparr>selectedEvent := ''E1'', selectedParticipant := ''P2'', elapsedTime := 500\<rparr>)
      demoWorld = Inr [] \<and>
   saveWrite demoEnv
      (initialStopwatch\<lparr>selectedEvent := ''E1'', selectedParticipant := ''P2'', elapsedTime := 500\<rparr>)
      []
      (fst (saveWrite demoEnv
        (initialStopwatch\<lparr>selectedEvent := ''E1'', selectedParticipant := ''P2'',
           elapsedTime := 500\<rparr>)
        [] demoWorld)) =
     (demoWorld\<lparr>calls := 4, scoreDocs :=
        [(''s1'', \<lparr>eventId = ''E1'', participantId = ''P1'', score = Num 10, timestamp = 900\<rparr>),
         (''autox'', \<lparr>eventId = ''E1'', participantId = ''P2'', score = Num (1 / 2),
            timestamp = 1000\<rparr>),
         (''autoxxx'', \<lparr>eventId = ''E1'', participantId = ''P2'', score = Num (1 / 2),
            timestamp = 1002\<rparr>)]\<rparr>,
      initialStopwatch\<lparr>selectedEvent := ''E1'', selectedParticipant := ''P2'', elapsedTime := 500,
        saveMessage := Message ''Score saved successfully!''\<rparr>)"
  by (simp add: initialStopwatch_def saveQuery_def saveWrite_def demoEnv_def demoWorld_def
      getScoreDocs_def newDate_def addScoreDoc_def scoreInSeconds_examples eval_nat_numeral)

text \<open>
  When nothing comes between the query and the write, the two halves are the handler.
\<close>

lemma handleSaveScore_halves:
  assumes "selectedEvent s \<noteq> []" "selectedParticipant s \<noteq> []" "elapsedTime s \<noteq> 0"
    and "saveQuery en s w = Inr existingScores"
  shows "handleSaveScore en True s w = saveWrite en s existingScores w"
  using assms by (simp add: handleSaveScore_def)

section \<open>At most one score for an event and a participant\<close>

text \<open>What the write of the stopwatch does, given the answer to its query on the same store.\<close>

lemma saveWrite_cases:
  assumes "saveQuery en s w = Inr existingScores"
  shows
  "scoreDocs (fst (saveWrite en s existingScores w)) = scoreDocs w \<or>
   (\<exists>i new. (selectedEvent s, selectedParticipant s) \<notin> set (map pairKey (scoreDocs w)) \<and>
      eventId new = selectedEvent s \<and> participantId new = selectedParticipant s \<and>
      i \<notin> set (map fst (scoreDocs w)) \<and>
      scoreDocs (fst (saveWrite en s existingScores w)) = scoreDocs w @ [(i, new)]) \<or>
   (\<exists>doc0 new. doc0 \<in> set (scoreDocs w) \<and> eventId (snd doc0) = selectedEvent s \<and>
      participantId (snd doc0) = selectedParticipant s \<and>
      eventId new = selectedEvent s \<and> participantId new = selectedParticipant s \<and>
      scoreDocs (fst (saveWrite en s existingScores w)) =
        map (\<lambda>e. if fst e = fst doc0 then (fst doc0, new) else e) (scoreDocs w))"
proof -
  let ?P = "\<lambda>d. eventId (snd d) = selectedEvent s \<and> participantId (snd d) = selectedParticipant s"
  let ?new = "\<lparr>eventId = selectedEvent s, participantId = selectedParticipant s,
      score = scoreInSeconds (elapsedTime s), timestamp = dateAt en (calls w)\<rparr>"
  from assms have ex: "existingScores = filter ?P (scoreDocs w)"
    by (auto simp: saveQuery_def getScoreDocs_def split: if_splits)
  show ?thesis
  proof (cases existingScores)
    case Nil
    with ex have "filter ?P (scoreDocs w) = []" by simp
    then have none: "(selectedEvent s, selectedParticipant s) \<notin> set (map pairKey (scoreDocs w))"
      by (auto simp: filter_empty_conv pairKey_def)
    from Nil have "scoreDocs (fst (saveWrite en s existingScores w)) = scoreDocs w \<or>
        (idAt en (Suc (calls w)) \<notin> set (map fst (scoreDocs w)) \<and>
         scoreDocs (fst (saveWrite en s existingScores w)) =
           scoreDocs w @ [(idAt en (Suc (calls w)), ?new)])"
      by (auto simp: saveWrite_def newDate_def addScoreDoc_def Let_def)
    with none have "scoreDocs (fst (saveWrite en s existingScores w)) = scoreDocs w \<or>
        ((selectedEvent s, selectedParticipant s) \<notin> set (map pairKey (scoreDocs w)) \<and>
         eventId ?new = selectedEvent s \<and> participantId ?new = selectedParticipant s \<and>
         idAt en (Suc (calls w)) \<notin> set (map fst (scoreDocs w)) \<and>
         scoreDocs (fst (saveWrite en s existingScores w)) =
           scoreDocs w @ [(idAt en (Suc (calls w)), ?new)])"
      by simp
    then show ?thesis by blast
  next
    case (Cons doc0 others)
    with ex have "doc0 \<in> set (filter ?P (scoreDocs w))" by (metis list.set_intros(1))
    then have d0: "doc0 \<in> set (scoreDocs w)" "?P doc0" by simp_all
    from Cons d0 have "scoreDocs (fst (saveWrite en s existingScores w)) = scoreDocs w \<or>
        scoreDocs (fst (saveWrite en s existingScores w)) =
          map (\<lambda>e. if fst e = fst doc0 then (fst doc0, ?new) else e) (scoreDocs w)"
      by (auto simp: saveWrite_def newDate_def updateScoreDoc_def Let_def)
    with d0 have "scoreDocs (fst (saveWrite en s existingScores w)) = scoreDocs w \<or>
        (doc0 \<in> set (scoreDocs w) \<and> eventId (snd doc0) = selectedEvent s \<and>
         participantId (snd doc0) = selectedParticipant s \<and>
         eventId ?new = selectedEvent s \<and> participantId ?new = selectedParticipant s \<and>
         scoreDocs (fst (saveWrite en s existingScores w)) =
          map (\<lambda>e. if fst e = fst doc0 then (fst doc0, ?new) else e) (scoreDocs w))"
      by simp
    then show ?thesis by blast
  qed
qed

lemma saveWrite_keeps:
  assumes ids: "distinct (map fst (scoreDocs w))" and pairs: "distinct (map pairKey (scoreDocs w))"
    and query: "saveQuery en s w = Inr existingScores"
  shows "distinct (map fst (scoreDocs (fst (saveWrite en s existingScores w)))) \<and>
         distinct (map pairKey (scoreDocs (fst (saveWrite en s existingScores w))))"
  using saveWrite_cases [OF query]
proof (elim disjE exE conjE)
  assume "scoreDocs (fst (saveWrite en s existingScores w)) = scoreDocs w"
  with ids pairs show ?thesis by simp
next
  fix i new
  assume a: "(selectedEvent s, selectedParticipant s) \<notin> set (map pairKey (scoreDocs w))"
    "eventId new = selectedEvent s" "participantId new = selectedParticipant s"
    "i \<notin> set (map fst (scoreDocs w))"
    "scoreDocs (fst (saveWrite en s existingScores w)) = scoreDocs w @ [(i, new)]"
  from add_keeps(1,2) [OF ids pairs a(1) a(4) a(2,3)] show ?thesis
    unfolding a(5) by blast
next
  fix doc0 new
  assume a: "doc0 \<in> set (scoreDocs w)" "eventId (snd doc0) = selectedEvent s"
    "participantId (snd doc0) = selectedParticipant s"
    "eventId new = selectedEvent s" "participantId new = selectedParticipant s"
    "scoreDocs (fst (saveWrite en s existingScores w)) =
        map (\<lambda>e. if fst e = fst doc0 then (fst doc0, new) else e) (scoreDocs w)"
  from a(2,3) have "pairKey doc0 = (selectedEvent s, selectedParticipant s)"
    by (simp add: pairKey_def)
  with a(1) have cur: "(fst doc0, selectedEvent s, selectedParticipant s)
      \<in> set (map (\<lambda>d. (fst d, pairKey d)) (scoreDocs w))"
    by (intro in_keyed) simp_all
  from update_keeps(1,2) [OF ids pairs cur a(4,5)] show ?thesis
    unfolding a(6) by blast
qed

lemma orderly_invariant:
  "orderly w \<Longrightarrow> distinct (map fst (scoreDocs w)) \<and> distinct (map pairKey (scoreDocs w))"
proof (induction rule: orderly.induct)
  case (no_scores w)
  then show ?case by simp
next
  case (form_write w ev existingScores pid en scores w')
  then show ?case using saveParticipantScore_keeps by blast
next
  case (stopwatch_write w en s existingScores)
  then show ?case by (intro saveWrite_keeps) simp_all
next
  case (score_deleted w en sid w')
  then have "scoreDocs w' = filter (\<lambda>d. fst d \<noteq> sid) (scoreDocs w)"
    by (auto simp: deleteScoreDoc_def split: if_splits)
  with score_deleted.IH show ?case by (simp add: distinct_map_filter)
next
  case (other_collections w w')
  then show ?case by simp
qed

lemma distinct_keys_at_most_one:
  "distinct (map f xs) \<Longrightarrow> length (filter (\<lambda>x. f x = k) xs) \<le> 1"
proof (induction xs)
  case Nil
  show ?case by simp
next
  case (Cons x xs)
  show ?case
  proof (cases "f x = k")
    case True
    from Cons.prems have "f x \<notin> f ` set xs" by simp
    with True have "\<forall>y \<in> set xs. f y \<noteq> k" by (metis imageI)
    then have "filter (\<lambda>x. f x = k) xs = []"
      by (simp add: filter_empty_conv)
    with True show ?thesis by simp
  next
    case False
    with Cons show ?thesis by simp
  qed
qed

subsection \<open>Handlers that run without interference\<close>

text \<open>
  The orderly states include what the handlers produce when each runs from its first to
  its last store operation with nothing in between: the save of the stopwatch, the save
  of a form whose listener has delivered the current documents, and the two cascading
  deletions.
\<close>

lemma handleSaveScore_orderly:
  assumes "orderly w"
  shows "orderly (fst (handleSaveScore en ready s w))"
proof (cases "selectedEvent s = [] \<or> selectedParticipant s = [] \<or> elapsedTime s = 0 \<or> \<not> ready")
  case True
  then have "fst (handleSaveScore en ready s w) = w" by (auto simp: handleSaveScore_def)
  with assms show ?thesis by simp
next
  case False
  show ?thesis
  proof (cases "saveQuery en s w")
    case (Inl e)
    with False have "fst (handleSaveScore en ready s w) = w" by (simp add: handleSaveScore_def)
    with assms show ?thesis by simp
  next
    case (Inr existingScores)
    with False have "fst (handleSaveScore en ready s w) = fst (saveWrite en s existingScores w)"
      by (simp add: handleSaveScore_def)
    with orderly.stopwatch_write [OF assms Inr] show ?thesis by simp
  qed
qed

lemma saveAll_orderly:
  assumes "orderly w" "distinct (map fst participants)"
    and "\<forall>p \<in> set participants.
           getProperty ex (fst p) \<noteq> Inherited \<longrightarrow> upToDate ev ex (scoreDocs w) (fst p)"
  shows "orderly (fst (saveAll en ev scores ex participants w))"
  using assms
proof (induction participants arbitrary: w)
  case Nil
  then show ?case by simp
next
  case (Cons p ps)
  show ?case
  proof (cases "saveParticipantScore en ev scores ex (fst p) w")
    case (Inl e)
    with Cons.prems show ?thesis by simp
  next
    case (Inr w')
    then have "getProperty ex (fst p) \<noteq> Inherited"
      using saveParticipantScore_Inherited [of ex "fst p" en ev scores w] by auto
    with Cons.prems have up: "upToDate ev ex (scoreDocs w) (fst p)" by simp
    from orderly_invariant [OF Cons.prems(1)]
    have inv: "distinct (map fst (scoreDocs w))" "distinct (map pairKey (scoreDocs w))"
      by simp_all
    note keeps = saveParticipantScore_keeps [OF inv up Inr]
    have next_orderly: "orderly w'" using Cons.prems(1) up Inr by (rule orderly.form_write)
    have "\<forall>q \<in> set ps. getProperty ex (fst q) \<noteq> Inherited \<longrightarrow>
        upToDate ev ex (scoreDocs w') (fst q)"
    proof (intro ballI impI)
      fix q assume q: "q \<in> set ps" and ni: "getProperty ex (fst q) \<noteq> Inherited"
      from q have "fst q \<in> fst ` set ps" by (rule imageI)
      moreover from Cons.prems(2) have "fst p \<notin> fst ` set ps" by simp
      ultimately have "fst q \<noteq> fst p" by metis
      moreover from q ni Cons.prems(3) have "upToDate ev ex (scoreDocs w) (fst q)" by simp
      ultimately show "upToDate ev ex (scoreDocs w') (fst q)" using keeps by blast
    qed
    moreover from Cons.prems(2) have "distinct (map fst ps)" by simp
    ultimately have "orderly (fst (saveAll en ev scores ex ps w'))"
      using next_orderly by (intro Cons.IH)
    with Inr show ?thesis by simp
  qed
qed

lemma handleSubmit_orderly:
  assumes "orderly w" "distinct (map fst participants)"
  shows "orderly (fst (handleSubmit en ready ev participants scores
            (currentExistingScores (eventScoreDocs ev w)) w))"
proof (cases ready)
  case False
  with assms show ?thesis by (simp add: handleSubmit_def)
next
  case True
  let ?ex = "currentExistingScores (eventScoreDocs ev w)"
  have "\<forall>p \<in> set participants.
      getProperty ?ex (fst p) \<noteq> Inherited \<longrightarrow> upToDate ev ?ex (scoreDocs w) (fst p)"
    by (simp add: listener_upToDate)
  from saveAll_orderly [OF assms this, of en scores]
  have "orderly (fst (saveAll en ev scores ?ex participants w))" .
  moreover have "fst (handleSubmit en ready ev participants scores ?ex w) =
      fst (saveAll en ev scores ?ex participants w)"
    using True by (simp add: handleSubmit_def split: prod.splits option.splits)
  ultimately show ?thesis by simp
qed

lemma deleteEach_orderly: "orderly w \<Longrightarrow> orderly (deleteEach en snapshot w)"
proof (induction snapshot rule: rev_induct)
  case Nil
  then show ?case by (simp add: deleteEach_def)
next
  case (snoc d ds)
  then have before: "orderly (deleteEach en ds w)" by simp
  have step: "deleteEach en (ds @ [d]) w =
      detached (deleteEach en ds w) (deleteScoreDoc en (fst d) (deleteEach en ds w))"
    by (simp add: deleteEach_def)
  show ?case
  proof (cases "deleteScoreDoc en (fst d) (deleteEach en ds w)")
    case (Inl e)
    with before show ?thesis by (simp add: step detached_def)
  next
    case (Inr w')
    from orderly.score_deleted [OF before Inr] Inr show ?thesis
      by (simp add: step detached_def)
  qed
qed

lemma handleDeleteEvent_orderly:
  assumes "orderly w"
  shows "orderly (fst (handleDeleteEvent en ev w))"
proof (cases "deleteEventDoc en ev w")
  case (Inl e)
  with assms show ?thesis by (simp add: handleDeleteEvent_def)
next
  case (Inr w1)
  then have "scoreDocs w1 = scoreDocs w" by (auto simp: deleteEventDoc_def split: if_splits)
  with assms have w1: "orderly w1" by (rule orderly.other_collections)
  show ?thesis
  proof (cases "getScoreDocs en (\<lambda>d. eventId d = ev) w1")
    case (Inl e)
    with Inr w1 show ?thesis by (simp add: handleDeleteEvent_def)
  next
    case inner: (Inr scoresSnapshot)
    with Inr deleteEach_orderly [OF w1] show ?thesis by (simp add: handleDeleteEvent_def)
  qed
qed

lemma handleDeleteParticipant_orderly:
  assumes "orderly w"
  shows "orderly (fst (handleDeleteParticipant en pid w))"
proof (cases "deleteParticipantDoc en pid w")
  case (Inl e)
  with assms show ?thesis by (simp add: handleDeleteParticipant_def)
next
  case (Inr w1)
  then have "scoreDocs w1 = scoreDocs w"
    by (auto simp: deleteParticipantDoc_def split: if_splits)
  with assms have w1: "orderly w1" by (rule orderly.other_collections)
  show ?thesis
  proof (cases "getScoreDocs en (\<lambda>d. participantId d = pid) w1")
    case (Inl e)
    with Inr w1 show ?thesis by (simp add: handleDeleteParticipant_def)
  next
    case inner: (Inr scoresSnapshot)
    with Inr deleteEach_orderly [OF w1] show ?thesis by (simp add: handleDeleteParticipant_def)
  qed
qed

text \<open>
  Claim C1, for writes that are decided on a current view. In every state of the score
  collection that arises from a collection without scores by the writes of the system,
  when each pass of the form's loop is made with an \<^verbatim>\<open>existingScores\<close> that is up to date
  for its pair at that moment and each write of the stopwatch uses the answer its query
  has on the store it writes to, there is at most one score document for each pair of an
  event and a participant; and the document ids are distinct.
\<close>

theorem at_most_one_score_per_pair:
  assumes "orderly w"
  shows "length (filter (\<lambda>d. eventId (snd d) = ev \<and> participantId (snd d) = pid) (scoreDocs w)) \<le> 1 \<and>
         atMostOnePerPair (scoreDocs w) \<and> distinct (map fst (scoreDocs w))"
proof -
  from orderly_invariant [OF assms]
  have inv: "distinct (map fst (scoreDocs w))" "distinct (map pairKey (scoreDocs w))" by simp_all
  have "length (filter (\<lambda>d. pairKey d = (ev, pid)) (scoreDocs w)) \<le> 1"
    using inv(2) by (rule distinct_keys_at_most_one)
  then have "length (filter (\<lambda>d. eventId (snd d) = ev \<and> participantId (snd d) = pid) (scoreDocs w)) \<le> 1"
    by (simp add: pairKey_def)
  with inv show ?thesis by (simp add: atMostOnePerPair_def)
qed

theorem at_most_one_score_per_pair_witness:
  "scoreDocs (fst (handleSubmit demoEnv True ''E1'' (participantDocs demoWorld)
      (handleScoreChange
        (currentScores (eventScoreDocs ''E1''
          (fst (handleSaveScore demoEnv True
            (initialStopwatch\<lparr>selectedEvent := ''E1'', selectedParticipant := ''P2'',
               elapsedTime := 500\<rparr>)
            (demoWorld\<lparr>scoreDocs := []\<rparr>)))))
        ''P1'' ''12.5'')
      (currentExistingScores (eventScoreDocs ''E1''
        (fst (handleSaveScore demoEnv True
          (initialStopwatch\<lparr>selectedEvent := ''E1'', selectedParticipant := ''P2'',
             elapsedTime := 500\<rparr>)
          (demoWorld\<lparr>scoreDocs := []\<rparr>)))))
      (fst (handleSaveScore demoEnv True
        (initialStopwatch\<lparr>selectedEvent := ''E1'', selectedParticipant := ''P2'',
           elapsedTime := 500\<rparr>)
        (demoWorld\<lparr>scoreDocs := []\<rparr>))))) =
     [(''autox'', \<lparr>eventId = ''E1'', participantId = ''P2'', score = Num (1 / 2),
         timestamp = 1004\<rparr>),
      (''autoxxx'', \<lparr>eventId = ''E1'', participantId = ''P1'', score = Num (25 / 2),
         timestamp = 1002\<rparr>)] \<and>
   atMostOnePerPair
     [(''autox'', \<lparr>eventId = ''E1'', participantId = ''P2'', score = Num (1 / 2),
         timestamp = 1004\<rparr>),
      (''autoxxx'', \<lparr>eventId = ''E1'', participantId = ''P1'', score = Num (25 / 2),
         timestamp = 1002\<rparr>)]"
proof -
  let ?s = "initialStopwatch\<lparr>selectedEvent := ''E1'', selectedParticipant := ''P2'',
      elapsedTime := 500\<rparr>"
  let ?w1 = "fst (handleSaveScore demoEnv True ?s (demoWorld\<lparr>scoreDocs := []\<rparr>))"
  let ?scores = "handleScoreChange (currentScores (eventScoreDocs ''E1'' ?w1)) ''P1'' ''12.5''"
  let ?w2 = "fst (handleSubmit demoEnv True ''E1'' (participantDocs demoWorld) ?scores
      (currentExistingScores (eventScoreDocs ''E1'' ?w1)) ?w1)"
  let ?docs = "[(''autox'', \<lparr>eventId = ''E1'', participantId = ''P2'', score = Num (1 / 2),
         timestamp = 1004\<rparr>),
      (''autoxxx'', \<lparr>eventId = ''E1'', participantId = ''P1'', score = Num (25 / 2),
         timestamp = 1002\<rparr>)]"
  have w1: "?w1 = demoWorld\<lparr>calls := 2, scoreDocs :=
      [(''autox'', \<lparr>eventId = ''E1'', participantId = ''P2'', score = Num (1 / 2),
         timestamp = 1000\<rparr>)]\<rparr>"
    by (simp add: initialStopwatch_def handleSaveScore_def saveQuery_def saveWrite_def
        demoEnv_def demoWorld_def getScoreDocs_def newDate_def addScoreDoc_def
        scoreInSeconds_examples)
  have r0: "orderly (demoWorld\<lparr>scoreDocs := []\<rparr>)"
    by (rule orderly.no_scores) simp
  have r1: "orderly ?w1" by (rule handleSaveScore_orderly [OF r0])
  have "distinct (map fst (participantDocs demoWorld))" by (simp add: demoWorld_def)
  with r1 have r2: "orderly ?w2" by (rule handleSubmit_orderly)
  have docs: "scoreDocs ?w2 = ?docs"
    unfolding w1
    by (simp add: demoWorld_def demoEnv_def handleSubmit_def saveParticipantScore_def
        handleScoreChange_def scoreRegex_def Opt_def isDigit_def currentScores_def
        currentExistingScores_def setProperty_def getProperty_def objectPrototypeNames_def
        eventScoreDocs_def newDate_def addScoreDoc_def updateScoreDoc_def
        parseFloat_examples eval_nat_numeral)
  from at_most_one_score_per_pair [OF r2, of "''E1''" "''P1''"]
  have "atMostOnePerPair (scoreDocs ?w2)" by simp
  with docs show ?thesis by simp
qed

text \<open>
  The restriction is needed. Two score-entry forms for E1 are open, each with the
  \<^verbatim>\<open>existingScores\<close> that its listener built from the collection without scores. The first
  saves 10 for P1. The second, to which the new document has not been delivered yet, saves
  12 for P1: it finds no entry for P1 in its \<^verbatim>\<open>existingScores\<close> and adds a second document
  for the pair.
\<close>

theorem two_forms_add_two_records:
  "scoreDocs (fst (handleSubmit demoEnv True ''E1'' [(''P1'', \<lparr>name = ''Alice'', house = ''Red''\<rparr>)]
      (Map.empty(''P1'' \<mapsto> Typed ''12''))
      (currentExistingScores (eventScoreDocs ''E1'' (demoWorld\<lparr>scoreDocs := []\<rparr>)))
      (fst (handleSubmit demoEnv True ''E1'' [(''P1'', \<lparr>name = ''Alice'', house = ''Red''\<rparr>)]
        (Map.empty(''P1'' \<mapsto> Typed ''10''))
        (currentExistingScores (eventScoreDocs ''E1'' (demoWorld\<lparr>scoreDocs := []\<rparr>)))
        (demoWorld\<lparr>scoreDocs := []\<rparr>))))) =
     [(''autox'', \<lparr>eventId = ''E1'', participantId = ''P1'', score = Num 10, timestamp = 1000\<rparr>),
      (''autoxxx'', \<lparr>eventId = ''E1'', participantId = ''P1'', score = Num 12, timestamp = 1002\<rparr>)] \<and>
   \<not> atMostOnePerPair
     [(''autox'', \<lparr>eventId = ''E1'', participantId = ''P1'', score = Num 10, timestamp = 1000\<rparr>),
      (''autoxxx'', \<lparr>eventId = ''E1'', participantId = ''P1'', score = Num 12, timestamp = 1002\<rparr>)]"
  by (simp add: demoWorld_def demoEnv_def handleSubmit_def saveParticipantScore_def
      currentExistingScores_def setProperty_def getProperty_def objectPrototypeNames_def
      eventScoreDocs_def newDate_def addScoreDoc_def parseFloat_examples
      atMostOnePerPair_def pairKey_def eval_nat_numeral)

text \<open>
  The same happens between the stopwatch and a form: the form was opened before the
  stopwatch saved a time for E1 and P2, and adds a second document for that pair.
\<close>

lemma earlier_view_adds_second_document:
  "map pairKey (scoreDocs (fst (handleSubmit demoEnv True ''E1'' (participantDocs demoWorld)
      (handleScoreChange (currentScores (eventScoreDocs ''E1'' demoWorld)) ''P2'' ''3'')
      (currentExistingScores (eventScoreDocs ''E1'' demoWorld))
      (fst (handleSaveScore demoEnv True
        (initialStopwatch\<lparr>selectedEvent := ''E1'', selectedParticipant := ''P2'',
           elapsedTime := 500\<rparr>)
        demoWorld))))) =
     [(''E1'', ''P1''), (''E1'', ''P2''), (''E1'', ''P2'')]"
proof -
  have "fst (handleSaveScore demoEnv True
        (initialStopwatch\<lparr>selectedEvent := ''E1'', selectedParticipant := ''P2'',
           elapsedTime := 500\<rparr>) demoWorld) =
      demoWorld\<lparr>calls := 2, scoreDocs := scoreDocs demoWorld @
        [(''autox'', \<lparr>eventId = ''E1'', participantId = ''P2'', score = Num (1 / 2),
           timestamp = 1000\<rparr>)]\<rparr>"
    by (simp add: initialStopwatch_def handleSaveScore_def saveQuery_def saveWrite_def
        demoEnv_def demoWorld_def getScoreDocs_def newDate_def addScoreDoc_def
        scoreInSeconds_examples)
  then show ?thesis
    by (simp add: demoWorld_def demoEnv_def handleSubmit_def saveParticipantScore_def
        handleScoreChange_def scoreRegex_def Opt_def isDigit_def currentScores_def
        currentExistingScores_def setProperty_def getProperty_def objectPrototypeNames_def
        eventScoreDocs_def newDate_def addScoreDoc_def updateScoreDoc_def
        parseFloat_examples pairKey_def eval_nat_numeral)
qed

end
